theory Spec2Isabelle
  imports Main
begin

section \<open>The DB-IP importer \<open>scripts/dbip-to-psql.py\<close>\<close>

text \<open>
  The script reads a DB-IP CSV file line by line, turns every (start, end) range
  into CIDR blocks, formats one SQL value tuple per block and sends the tuples
  to PostgreSQL in bulk \<open>INSERT ... ON CONFLICT\<close> statements of at least 5000 rows.

  Python strings are modelled as \<open>string\<close>; a \<open>char\<close> above 127 stands for a
  character outside ASCII. Exceptions are values of \<open>error\<close>.
\<close>

datatype error =
    IndexError            \<comment> \<open>\<open>r[i]\<close> past the end of the field list\<close>
  | InvalidRangeError     \<comment> \<open>raised by the range expander\<close>
  | CsvError              \<comment> \<open>\<open>csv.Error\<close>\<close>
  | UnicodeDecodeError    \<comment> \<open>\<open>bytes.decode('ascii')\<close> on a byte above 127\<close>
  | ConnectError          \<comment> \<open>\<open>psycopg2.connect\<close> failed\<close>
  | DatabaseError         \<comment> \<open>any psycopg2 exception that is not a \<open>ProgrammingError\<close>\<close>

definition idx :: "'a list \<Rightarrow> nat \<Rightarrow> error + 'a" where
  "idx xs i = (if i < length xs then Inr (xs ! i) else Inl IndexError)"

subsection \<open>String helpers of line 246 and lines 260-261\<close>

definition rstrip_nl :: "string \<Rightarrow> string" where
  \<comment> \<open>\<open>line.rstrip('\\n')\<close>: every trailing line feed is removed\<close>
  "rstrip_nl s = rev (dropWhile (\<lambda>c. c = CHR 0x0A) (rev s))"

definition replace_quote :: "string \<Rightarrow> string" where
  \<comment> \<open>\<open>.replace("'", "")\<close>\<close>
  "replace_quote s = filter (\<lambda>c. c \<noteq> CHR 0x27) s"

definition is_ascii :: "char \<Rightarrow> bool" where
  "is_ascii c = ((of_char c :: nat) < 128)"

definition encode_ascii_ignore :: "string \<Rightarrow> string" where
  \<comment> \<open>\<open>.encode('ascii', 'ignore')\<close>: characters outside ASCII are left out\<close>
  "encode_ascii_ignore s = filter is_ascii s"

definition decode_ascii :: "string \<Rightarrow> error + string" where
  \<comment> \<open>\<open>.decode('ascii')\<close>: strict, raises on a byte above 127\<close>
  "decode_ascii b = (if list_all is_ascii b then Inr b else Inl UnicodeDecodeError)"

definition digit :: "nat \<Rightarrow> char" where
  "digit d = ''0123456789'' ! d"

fun str_nat :: "nat \<Rightarrow> string" where
  \<comment> \<open>\<open>str(n)\<close> and \<open>'%d' % n\<close> for a natural number\<close>
  "str_nat n = (if n < 10 then [digit n] else str_nat (n div 10) @ [digit (n mod 10)])"

declare str_nat.simps [simp del]

subsection \<open>\<open>csv.reader\<close> on one line (line 247)\<close>

text \<open>
  The call is \<open>csv.reader([stripped_line], delimiter=',', quotechar='"')\<close>: the
  dialect has \<open>doublequote\<close> on, no escape character, \<open>skipinitialspace\<close> off,
  minimal quoting and is not strict. The reader is CPython's state machine
  (\<open>parse_process_char\<close> of \<open>_csv.c\<close>, with \<open>None\<close> for its end-of-line marker);
  the two escape states are unreachable without an escape character and left out.
  A NUL character is an ordinary character, as in CPython 3.11 and later.
\<close>

datatype ParserState =
  START_RECORD | START_FIELD | IN_FIELD | IN_QUOTED_FIELD | QUOTE_IN_QUOTED_FIELD | EAT_CRNL

record ReaderObj =
  r_state :: ParserState
  r_fields :: "string list"
  r_field :: string

definition delimiter :: char where "delimiter = CHR '',''"
definition quotechar :: char where "quotechar = CHR 0x22"
definition field_limit :: nat where "field_limit = 131072"

definition is_crlf :: "char \<Rightarrow> bool" where
  "is_crlf c = (c = CHR 0x0A \<or> c = CHR 0x0D)"

definition parse_reset :: ReaderObj where
  "parse_reset = \<lparr>r_state = START_RECORD, r_fields = [], r_field = []\<rparr>"

definition parse_save_field :: "ReaderObj \<Rightarrow> ReaderObj" where
  "parse_save_field self = self\<lparr>r_fields := r_fields self @ [r_field self], r_field := []\<rparr>"

definition parse_add_char :: "ReaderObj \<Rightarrow> char \<Rightarrow> error + ReaderObj" where
  "parse_add_char self c =
     (if field_limit \<le> length (r_field self) then Inl CsvError
      else Inr (self\<lparr>r_field := r_field self @ [c]\<rparr>))"

definition then_state :: "ParserState \<Rightarrow> error + ReaderObj \<Rightarrow> error + ReaderObj" where
  "then_state s r = (case r of Inl e \<Rightarrow> Inl e | Inr self \<Rightarrow> Inr (self\<lparr>r_state := s\<rparr>))"

definition start_field :: "ReaderObj \<Rightarrow> char option \<Rightarrow> error + ReaderObj" where
  \<comment> \<open>\<open>case START_FIELD\<close>, also reached by fall-through from \<open>START_RECORD\<close>\<close>
  "start_field self c =
     (case c of
        None \<Rightarrow> Inr ((parse_save_field self)\<lparr>r_state := START_RECORD\<rparr>)
      | Some ch \<Rightarrow>
          if is_crlf ch then Inr ((parse_save_field self)\<lparr>r_state := EAT_CRNL\<rparr>)
          else if ch = quotechar then Inr (self\<lparr>r_state := IN_QUOTED_FIELD\<rparr>)
          else if ch = delimiter then Inr (parse_save_field self)
          else then_state IN_FIELD (parse_add_char self ch))"

definition parse_process_char :: "ReaderObj \<Rightarrow> char option \<Rightarrow> error + ReaderObj" where
  "parse_process_char self c =
     (case r_state self of
        START_RECORD \<Rightarrow>
          (case c of
             None \<Rightarrow> Inr self
           | Some ch \<Rightarrow>
               if is_crlf ch then Inr (self\<lparr>r_state := EAT_CRNL\<rparr>)
               else start_field (self\<lparr>r_state := START_FIELD\<rparr>) c)
      | START_FIELD \<Rightarrow> start_field self c
      | IN_FIELD \<Rightarrow>
          (case c of
             None \<Rightarrow> Inr ((parse_save_field self)\<lparr>r_state := START_RECORD\<rparr>)
           | Some ch \<Rightarrow>
               if is_crlf ch then Inr ((parse_save_field self)\<lparr>r_state := EAT_CRNL\<rparr>)
               else if ch = delimiter then Inr ((parse_save_field self)\<lparr>r_state := START_FIELD\<rparr>)
               else parse_add_char self ch)
      | IN_QUOTED_FIELD \<Rightarrow>
          (case c of
             None \<Rightarrow> Inr self
           | Some ch \<Rightarrow>
               if ch = quotechar then Inr (self\<lparr>r_state := QUOTE_IN_QUOTED_FIELD\<rparr>)
               else parse_add_char self ch)
      | QUOTE_IN_QUOTED_FIELD \<Rightarrow>
          (case c of
             None \<Rightarrow> Inr ((parse_save_field self)\<lparr>r_state := START_RECORD\<rparr>)
           | Some ch \<Rightarrow>
               if ch = quotechar then then_state IN_QUOTED_FIELD (parse_add_char self ch)
               else if ch = delimiter then Inr ((parse_save_field self)\<lparr>r_state := START_FIELD\<rparr>)
               else if is_crlf ch then Inr ((parse_save_field self)\<lparr>r_state := EAT_CRNL\<rparr>)
               else then_state IN_FIELD (parse_add_char self ch))
      | EAT_CRNL \<Rightarrow>
          (case c of
             None \<Rightarrow> Inr (self\<lparr>r_state := START_RECORD\<rparr>)
           | Some ch \<Rightarrow> if is_crlf ch then Inr self else Inl CsvError))"

fun process_chars :: "ReaderObj \<Rightarrow> string \<Rightarrow> error + ReaderObj" where
  "process_chars self [] = Inr self"
| "process_chars self (c # cs) =
     (case parse_process_char self (Some c) of
        Inl e \<Rightarrow> Inl e
      | Inr self' \<Rightarrow> process_chars self' cs)"

definition Reader_iternext :: "string \<Rightarrow> error + string list option" where
  \<comment> \<open>the first \<open>next()\<close> of a reader over the one-line list; \<open>None\<close> is StopIteration\<close>
  "Reader_iternext line =
     (case process_chars parse_reset line of
        Inl e \<Rightarrow> Inl e
      | Inr self \<Rightarrow>
          (case parse_process_char self None of
             Inl e \<Rightarrow> Inl e
           | Inr self' \<Rightarrow>
               if r_state self' = START_RECORD then Inr (Some (r_fields self'))
               else if r_field self' \<noteq> [] \<or> r_state self' = IN_QUOTED_FIELD
                 then Inr (Some (r_fields (parse_save_field self')))
               else Inr None))"

definition csv_reader_first :: "string \<Rightarrow> error + string list" where
  \<comment> \<open>\<open>list(csv.reader([stripped_line], ...))[0]\<close>\<close>
  "csv_reader_first line =
     (case Reader_iternext line of
        Inl e \<Rightarrow> Inl e
      | Inr None \<Rightarrow> Inl IndexError
      | Inr (Some r) \<Rightarrow> Inr r)"

subsection \<open>The range expander\<close>

text \<open>
  \<open>netaddr.iprange_to_cidrs\<close> is a library call; \<open>main\<close> takes it as a
  parameter of type \<open>expander\<close>: two address texts in, the texts of the CIDR
  blocks (what \<open>'%s' % ip\<close> prints) or an exception out.
\<close>

type_synonym expander = "string \<Rightarrow> string \<Rightarrow> error + string list"

text \<open>
  Modelled from the spec: the range expander itself (netaddr is not part of the
  sources). Section 4.1: repeatedly find the largest power-of-two-aligned block
  starting at the current address that does not exceed the remaining range, emit
  it, advance the current address past it, and repeat until the current address
  exceeds the end address. Addresses are numbers below \<open>2 ^ w\<close> (\<open>w\<close> is 32 or
  128); a block is its first address and its prefix length.
\<close>

fun largest_block :: "nat \<Rightarrow> nat \<Rightarrow> nat \<Rightarrow> nat" where
  \<comment> \<open>the largest \<open>j \<le> k\<close> with \<open>cur\<close> aligned to \<open>2 ^ j\<close> and the block inside the range\<close>
  "largest_block k cur e =
     (if k = 0 then 0
      else if 2 ^ k dvd cur \<and> cur + 2 ^ k \<le> Suc e then k
      else largest_block (k - 1) cur e)"

declare largest_block.simps [simp del]

function cidrs_from :: "nat \<Rightarrow> nat \<Rightarrow> nat \<Rightarrow> (nat \<times> nat) list" where
  \<comment> \<open>Modelled from the spec: emit the largest block at \<open>cur\<close>, advance past it, stop
      once \<open>cur\<close> exceeds the end address \<open>e\<close>\<close>
  "cidrs_from w cur e =
     (if e < cur then []
      else (cur, w - largest_block w cur e) #
           cidrs_from w (cur + 2 ^ largest_block w cur e) e)"
  by pat_completeness auto
termination
proof (relation "measure (\<lambda>(w, cur, e). Suc e - cur)", goal_cases)
  case 1
  show ?case by simp
next
  case (2 w cur e)
  then have "cur \<le> e" by simp
  moreover have "(0::nat) < 2 ^ largest_block w cur e" by simp
  ultimately have "Suc e - (cur + 2 ^ largest_block w cur e) < Suc e - cur" by linarith
  then show ?case by simp
qed

declare cidrs_from.simps [simp del]

definition iprange_to_cidrs :: "nat \<Rightarrow> nat \<Rightarrow> nat \<Rightarrow> error + (nat \<times> nat) list" where
  \<comment> \<open>Modelled from the spec: \<open>start > end\<close> is an \<open>InvalidRangeError\<close>, as is an address
      outside the \<open>w\<close>-bit space\<close>
  "iprange_to_cidrs w start end =
     (if end < start \<or> 2 ^ w \<le> end then Inl InvalidRangeError
      else Inr (cidrs_from w start end))"

definition block_addrs :: "nat \<Rightarrow> nat \<times> nat \<Rightarrow> nat set" where
  \<comment> \<open>the addresses of a block of prefix length \<open>snd b\<close> in a \<open>w\<close>-bit space\<close>
  "block_addrs w b = {fst b ..< fst b + 2 ^ (w - snd b)}"

definition valid_cidr :: "nat \<Rightarrow> nat \<times> nat \<Rightarrow> bool" where
  "valid_cidr w b = (snd b \<le> w \<and> 2 ^ (w - snd b) dvd fst b \<and> fst b + 2 ^ (w - snd b) \<le> 2 ^ w)"


text \<open>
  Modelled from the spec: an expander for dotted-quad IPv4 text, the instance used
  in the concrete scenarios (netaddr's parser and printer are not part of the
  sources). Malformed text is an \<open>InvalidRangeError\<close>.
\<close>

fun split_on :: "char \<Rightarrow> string \<Rightarrow> string list" where
  "split_on c [] = [[]]"
| "split_on c (x # xs) =
     (if x = c then [] # split_on c xs
      else (case split_on c xs of [] \<Rightarrow> [[x]] | p # ps \<Rightarrow> (x # p) # ps))"

definition digit_val :: "char \<Rightarrow> nat option" where
  "digit_val c =
     map_of [(CHR ''0'', 0), (CHR ''1'', 1), (CHR ''2'', 2), (CHR ''3'', 3), (CHR ''4'', 4),
             (CHR ''5'', 5), (CHR ''6'', 6), (CHR ''7'', 7), (CHR ''8'', 8), (CHR ''9'', 9)] c"

fun nat_of_digits :: "nat \<Rightarrow> string \<Rightarrow> nat option" where
  "nat_of_digits acc [] = Some acc"
| "nat_of_digits acc (c # cs) =
     (case digit_val c of None \<Rightarrow> None | Some d \<Rightarrow> nat_of_digits (10 * acc + d) cs)"

definition octet :: "string \<Rightarrow> nat option" where
  "octet p =
     (if p = [] \<or> 3 < length p then None
      else case nat_of_digits 0 p of
             None \<Rightarrow> None
           | Some n \<Rightarrow> if n < 256 then Some n else None)"

definition parse_ipv4 :: "string \<Rightarrow> nat option" where
  "parse_ipv4 s =
     (case map octet (split_on CHR ''.'' s) of
        [Some a, Some b, Some c, Some d] \<Rightarrow> Some (((a * 256 + b) * 256 + c) * 256 + d)
      | _ \<Rightarrow> None)"

definition str_ipv4 :: "nat \<Rightarrow> string" where
  "str_ipv4 n = str_nat (n div 16777216) @ ''.'' @ str_nat (n div 65536 mod 256) @ ''.'' @
                str_nat (n div 256 mod 256) @ ''.'' @ str_nat (n mod 256)"

definition str_cidr4 :: "nat \<times> nat \<Rightarrow> string" where
  "str_cidr4 b = str_ipv4 (fst b) @ ''/'' @ str_nat (snd b)"

definition iprange_to_cidrs_ipv4 :: expander where
  \<comment> \<open>Modelled from the spec: parse both texts, expand in the 32-bit space, print the blocks\<close>
  "iprange_to_cidrs_ipv4 start end =
     (case parse_ipv4 start of
        None \<Rightarrow> Inl InvalidRangeError
      | Some s \<Rightarrow>
          (case parse_ipv4 end of
             None \<Rightarrow> Inl InvalidRangeError
           | Some e \<Rightarrow>
               (case iprange_to_cidrs 32 s e of
                  Inl x \<Rightarrow> Inl x
                | Inr bs \<Rightarrow> Inr (map str_cidr4 bs))))"

subsection \<open>Rows and their SQL text (lines 230-235 and 258-264)\<close>

text \<open>
  One value tuple of the statement, named by the column list of \<open>sql_insert\<close>:
  \<open>(family,ip,city,stateprov,country,latitude,longitude,timezone_offset,
  timezone_name,isp_name)\<close>.
\<close>

record geo_row =
  family :: nat
  ip :: string
  city :: string
  stateprov :: string
  country :: string
  latitude :: string
  longitude :: string
  timezone_offset :: nat
  timezone_name :: string
  isp_name :: string

definition sql_insert :: string where
  "sql_insert = ''INSERT INTO geo_ip (family,ip,city,stateprov,country,latitude,longitude,'' @
                ''timezone_offset, timezone_name, isp_name) VALUES ''"

definition sql_conflict :: string where
  "sql_conflict = '' ON CONFLICT (ip) DO UPDATE SET '' @
                  '' city=excluded.city, stateprov=excluded.stateprov,'' @
                  '' country=excluded.country, latitude=excluded.latitude, longitude=excluded.longitude;''"

definition quoted :: "string \<Rightarrow> string" where
  \<comment> \<open>the \<open>'%s'\<close> of the format string\<close>
  "quoted s = [CHR 0x27] @ s @ [CHR 0x27]"

definition values_text :: "geo_row \<Rightarrow> string" where
  \<comment> \<open>\<open>"(%d, '%s', '%s', '%s', '%s', %s, %s," % (...)\<close> followed by \<open>"0, 'UTC', '') "\<close>\<close>
  "values_text row =
     ''('' @ str_nat (family row) @ '', '' @ quoted (ip row) @ '', '' @ quoted (city row) @
     '', '' @ quoted (stateprov row) @ '', '' @ quoted (country row) @ '', '' @
     latitude row @ '', '' @ longitude row @ '','' @
     str_nat (timezone_offset row) @ '', '' @ quoted (timezone_name row) @ '', '' @
     quoted (isp_name row) @ '') ''"

definition make_row :: "nat \<Rightarrow> string \<Rightarrow> string list \<Rightarrow> error + geo_row" where
  \<comment> \<open>the arguments of the format string, in the order the tuple evaluates them\<close>
  "make_row addr_type a r =
     (case idx r 5 of Inl e \<Rightarrow> Inl e | Inr r5 \<Rightarrow>
      case decode_ascii (encode_ascii_ignore r5) of Inl e \<Rightarrow> Inl e | Inr c \<Rightarrow>
      case idx r 4 of Inl e \<Rightarrow> Inl e | Inr r4 \<Rightarrow>
      case decode_ascii (encode_ascii_ignore r4) of Inl e \<Rightarrow> Inl e | Inr sp \<Rightarrow>
      case idx r 3 of Inl e \<Rightarrow> Inl e | Inr r3 \<Rightarrow>
      case idx r 6 of Inl e \<Rightarrow> Inl e | Inr r6 \<Rightarrow>
      case idx r 7 of Inl e \<Rightarrow> Inl e | Inr r7 \<Rightarrow>
        Inr \<lparr>family = addr_type, ip = a, city = c, stateprov = sp, country = r3,
             latitude = r6, longitude = r7,
             timezone_offset = 0, timezone_name = ''UTC'', isp_name = []\<rparr>)"

fun make_rows :: "nat \<Rightarrow> string list \<Rightarrow> string list \<Rightarrow> error + geo_row list" where
  \<comment> \<open>the \<open>for ip in ip_list\<close> loop, as far as it can raise\<close>
  "make_rows addr_type [] r = Inr []"
| "make_rows addr_type (a # ip_list) r =
     (case make_row addr_type a r of
        Inl e \<Rightarrow> Inl e
      | Inr row \<Rightarrow>
          (case make_rows addr_type ip_list r of
             Inl e \<Rightarrow> Inl e
           | Inr rows \<Rightarrow> Inr (row # rows)))"

definition stripped_line :: "string \<Rightarrow> string" where
  "stripped_line line = replace_quote (rstrip_nl line)"

definition record_rows :: "expander \<Rightarrow> string \<Rightarrow> error + geo_row list" where
  \<comment> \<open>lines 246-263 for one input line: the rows it adds, or the exception\<close>
  "record_rows expand line =
     (case csv_reader_first (stripped_line line) of Inl e \<Rightarrow> Inl e | Inr r \<Rightarrow>
      case idx r 0 of Inl e \<Rightarrow> Inl e | Inr r0 \<Rightarrow>
      case idx r 1 of Inl e \<Rightarrow> Inl e | Inr r1 \<Rightarrow>
      case expand r0 r1 of Inl e \<Rightarrow> Inl e | Inr ip_list \<Rightarrow>
        make_rows (if CHR ''.'' \<in> set r0 then 4 else 6) ip_list r)"


subsection \<open>The database handler (class \<open>dbHandler\<close>)\<close>

text \<open>
  What \<open>cursor.execute\<close> followed by \<open>conn.commit\<close> can do with a statement: commit
  it, raise \<open>psycopg2.ProgrammingError\<close>, or raise another exception.
\<close>

datatype outcome = Committed | ProgrammingError | OtherError

type_synonym geo_ip = "string \<rightharpoonup> geo_row"

text \<open>
  Modelled from the spec: the effect of a committed statement on the table
  \<open>geo_ip\<close> (the PostgreSQL server is not part of the sources). Section 4.2 and the
  text of \<open>sql_conflict\<close>: the conflict target is the \<open>ip\<close> key; a row whose key is
  new is inserted, and on conflict \<open>city\<close>, \<open>stateprov\<close>, \<open>country\<close>, \<open>latitude\<close> and
  \<open>longitude\<close> of the stored row are set from the proposed (\<open>excluded\<close>) row.
\<close>

definition on_conflict_update :: "geo_row \<Rightarrow> geo_row \<Rightarrow> geo_row" where
  "on_conflict_update existing excluded =
     existing\<lparr>city := city excluded, stateprov := stateprov excluded,
              country := country excluded, latitude := latitude excluded,
              longitude := longitude excluded\<rparr>"

definition upsert :: "geo_row \<Rightarrow> geo_ip \<Rightarrow> geo_ip" where
  \<comment> \<open>Modelled from the spec: one proposed row against the table, keyed by \<open>ip\<close>\<close>
  "upsert row t =
     (case t (ip row) of
        None \<Rightarrow> t(ip row \<mapsto> row)
      | Some existing \<Rightarrow> t(ip row \<mapsto> on_conflict_update existing row))"

definition execute_upsert :: "geo_row list \<Rightarrow> geo_ip \<Rightarrow> geo_ip" where
  \<comment> \<open>Modelled from the spec: the rows of one statement, in the order of its \<open>VALUES\<close> list\<close>
  "execute_upsert rows t = fold upsert rows t"

text \<open>
  The handler with the server behind it: \<open>accepts\<close> says whether \<open>psycopg2.connect\<close>
  succeeds, \<open>server\<close> lists what the server does with the coming statements (it
  commits once the list is used up), \<open>executed\<close> is every text passed to
  \<open>cursor.execute\<close>, oldest first, and \<open>table\<close> is the content of \<open>geo_ip\<close>.
\<close>

record dbHandler =
  conn :: bool
  cursor :: bool
  accepts :: bool
  server :: "outcome list"
  executed :: "string list"
  table :: geo_ip

datatype log_event =
    Not_connected                 \<comment> \<open>"Looks like psql is not connected, try to reconnect"\<close>
  | Query_failed                  \<comment> \<open>"query failed - %s"\<close>
  | Inserting nat nat nat         \<comment> \<open>"Inserting {count} records, total {total_count}, line count {line_count}"\<close>
  | Trying_again                  \<comment> \<open>"Trying to insert again due to exception"\<close>
  | Inserting_last_batch nat nat nat

text \<open>
  The variables of \<open>main\<close>, the handler \<open>db\<close> and the output of the logger \<open>LOG\<close>.
  \<open>batch\<close> is not in the script: it holds the rows whose text is in \<open>sql_values\<close>
  (lemma \<open>main_loop_text\<close>), so that a committed statement can act on the table.
\<close>

record main_state =
  total_count :: nat
  count :: nat
  line_count :: nat
  sql_values :: string
  batch :: "geo_row list"
  db :: dbHandler
  LOG :: "log_event list"

definition connectDb :: "dbHandler \<Rightarrow> error + dbHandler" where
  "connectDb self =
     (if accepts self then Inr (self\<lparr>conn := True, cursor := True\<rparr>) else Inl ConnectError)"

definition close :: "dbHandler \<Rightarrow> dbHandler" where
  "close self = self\<lparr>cursor := False, conn := False\<rparr>"

definition next_outcome :: "dbHandler \<Rightarrow> outcome" where
  "next_outcome self = (case server self of [] \<Rightarrow> Committed | x # _ \<Rightarrow> x)"

definition queryNoResults ::
  "string \<Rightarrow> geo_row list \<Rightarrow> main_state \<Rightarrow> (error \<times> main_state) + (bool option \<times> main_state)" where
  \<comment> \<open>\<open>rows\<close> are the rows that the text \<open>query\<close> carries; the result is \<open>True\<close> or \<open>None\<close>\<close>
  "queryNoResults query rows st =
     (if \<not> cursor (db st) then Inr (None, st\<lparr>LOG := LOG st @ [Not_connected]\<rparr>)
      else
        let self = (db st)\<lparr>server := tl (server (db st)), executed := executed (db st) @ [query]\<rparr>
        in case next_outcome (db st) of
             Committed \<Rightarrow>
               Inr (Some True, st\<lparr>db := self\<lparr>table := execute_upsert rows (table self)\<rparr>\<rparr>)
           | ProgrammingError \<Rightarrow> Inr (None, st\<lparr>db := self, LOG := LOG st @ [Query_failed]\<rparr>)
           | OtherError \<Rightarrow> Inl (DatabaseError, st\<lparr>db := self\<rparr>))"

subsection \<open>\<open>main\<close> (lines 225-294)\<close>

definition insert_batch :: "main_state \<Rightarrow> (error \<times> main_state) + main_state" where
  \<comment> \<open>the \<open>try: db.queryNoResults(...) except: LOG.error(...); db.queryNoResults(...)\<close>
      of lines 275-279 and 287-292; the value returned by the handler is dropped\<close>
  "insert_batch st =
     (case queryNoResults (sql_insert @ sql_values st @ sql_conflict) (batch st) st of
        Inr (_, st') \<Rightarrow> Inr st'
      | Inl (_, st') \<Rightarrow>
          (case queryNoResults (sql_insert @ sql_values st @ sql_conflict) (batch st)
                  (st'\<lparr>LOG := LOG st' @ [Trying_again]\<rparr>) of
             Inr (_, st'') \<Rightarrow> Inr st''
           | Inl e \<Rightarrow> Inl e))"

fun append_rows :: "geo_row list \<Rightarrow> main_state \<Rightarrow> main_state" where
  \<comment> \<open>the body of the \<open>for\<close> loop, lines 255-265\<close>
  "append_rows [] st = st"
| "append_rows (row # rows) st =
     append_rows rows
       (st\<lparr>sql_values := sql_values st @ (if count st \<noteq> 0 then '','' else []) @ values_text row,
           count := count st + 1,
           batch := batch st @ [row]\<rparr>)"

definition bulk_insert :: "main_state \<Rightarrow> (error \<times> main_state) + main_state" where
  \<comment> \<open>lines 271-282\<close>
  "bulk_insert st =
     (if 5000 \<le> count st then
        let st1 = st\<lparr>total_count := total_count st + count st\<rparr>;
            st2 = st1\<lparr>LOG := LOG st1 @ [Inserting (count st1) (total_count st1) (line_count st1)]\<rparr>
        in case insert_batch st2 of
             Inl e \<Rightarrow> Inl e
           | Inr st3 \<Rightarrow> Inr (st3\<lparr>sql_values := [], count := 0, batch := []\<rparr>)
      else Inr st)"

definition loop_body :: "expander \<Rightarrow> string \<Rightarrow> main_state \<Rightarrow> (error \<times> main_state) + main_state" where
  \<comment> \<open>one round of the \<open>while\<close> loop, lines 246-282\<close>
  "loop_body expand line st =
     (case record_rows expand line of
        Inl e \<Rightarrow> Inl (e, st)
      | Inr rows \<Rightarrow>
          let st1 = append_rows rows st
          in bulk_insert (st1\<lparr>line_count := line_count st1 + 1\<rparr>))"

fun main_loop :: "expander \<Rightarrow> string list \<Rightarrow> main_state \<Rightarrow> (error \<times> main_state) + main_state" where
  \<comment> \<open>\<open>while line and len(line) > 0\<close> over the lines that \<open>readline\<close> returns\<close>
  "main_loop expand [] st = Inr st"
| "main_loop expand (line # rest) st =
     (if line = [] then Inr st
      else case loop_body expand line st of
             Inl e \<Rightarrow> Inl e
           | Inr st' \<Rightarrow> main_loop expand rest st')"

definition last_batch :: "main_state \<Rightarrow> (error \<times> main_state) + main_state" where
  \<comment> \<open>lines 285-292\<close>
  "last_batch st =
     (if sql_values st \<noteq> [] then
        let st1 = st\<lparr>total_count := total_count st + count st\<rparr>;
            st2 = st1\<lparr>LOG := LOG st1 @
                     [Inserting_last_batch (count st1) (total_count st1) (line_count st1)]\<rparr>
        in insert_batch st2
      else Inr st)"

definition initial :: "dbHandler \<Rightarrow> main_state" where
  "initial d = \<lparr>total_count = 0, count = 0, line_count = 1, sql_values = [], batch = [],
                db = d, LOG = []\<rparr>"

definition main :: "expander \<Rightarrow> string list \<Rightarrow> dbHandler \<Rightarrow> (error \<times> main_state) + main_state" where
  "main expand lines d =
     (case connectDb d of
        Inl e \<Rightarrow> Inl (e, initial d)
      | Inr d' \<Rightarrow>
          (case main_loop expand lines (initial d') of
             Inl e \<Rightarrow> Inl e
           | Inr st \<Rightarrow>
               (case last_batch st of
                  Inl e \<Rightarrow> Inl e
                | Inr st' \<Rightarrow> Inr (st'\<lparr>db := close (db st')\<rparr>))))"

definition outcome_state :: "(error \<times> main_state) + main_state \<Rightarrow> main_state" where
  \<comment> \<open>the state a run ends in, whether it returned or raised\<close>
  "outcome_state res = (case res of Inl (_, st) \<Rightarrow> st | Inr st \<Rightarrow> st)"


subsection \<open>Auxiliary definitions and sample inputs\<close>

definition reader_chars :: "ReaderObj \<Rightarrow> char set" where
  \<comment> \<open>every character the reader holds, in finished fields or in the current one\<close>
  "reader_chars self = set (r_field self) \<union> \<Union> (set ` set (r_fields self))"

definition rows_of :: "error + geo_row list \<Rightarrow> geo_row list" where
  "rows_of res = (case res of Inl _ \<Rightarrow> [] | Inr rows \<Rightarrow> rows)"

definition spec_line :: string where
  \<comment> \<open>the seven-field line of the spec's scenario\<close>
  \<open>spec_line = ''1.1.1.18,1.1.1.20,US,CA,"Example City",37.0,-122.0''\<close>

definition spec_fields :: "string list" where
  "spec_fields = [''1.1.1.18'', ''1.1.1.20'', ''US'', ''CA'', ''Example City'', ''37.0'', ''-122.0'']"

definition dbip_line :: string where
  \<comment> \<open>a line with the eight fields the script reads, as \<open>readline\<close> returns it\<close>
  \<open>dbip_line = ''1.1.1.18,1.1.1.20,NA,US,CA,"Example City",37.0,-122.0'' @ [CHR 0x0A]\<close>

definition dbip_fields :: "string list" where
  "dbip_fields = [''1.1.1.18'', ''1.1.1.20'', ''NA'', ''US'', ''CA'', ''Example City'',
                  ''37.0'', ''-122.0'']"

definition dbip_row :: "string \<Rightarrow> geo_row" where
  "dbip_row a = \<lparr>family = 4, ip = a, city = ''Example City'', stateprov = ''CA'',
                 country = ''US'', latitude = ''37.0'', longitude = ''-122.0'',
                 timezone_offset = 0, timezone_name = ''UTC'', isp_name = []\<rparr>"

definition apostrophe_line :: string where
  \<comment> \<open>the line \<open>1.1.1.18,1.1.1.18,EU,IE,L'pool,O'Brien,53.3,-6.2\<close>\<close>
  "apostrophe_line = ''1.1.1.18,1.1.1.18,EU,IE,L'' @ [CHR 0x27] @ ''pool,O'' @ [CHR 0x27] @
                     ''Brien,53.3,-6.2'' @ [CHR 0x0A]"

definition apostrophe_row :: geo_row where
  "apostrophe_row = \<lparr>family = 4, ip = ''1.1.1.18/32'', city = ''OBrien'', stateprov = ''Lpool'',
                      country = ''IE'', latitude = ''53.3'', longitude = ''-6.2'',
                      timezone_offset = 0, timezone_name = ''UTC'', isp_name = []\<rparr>"




definition fresh_db :: "outcome list \<Rightarrow> dbHandler" where
  \<comment> \<open>an unconnected handler in front of an empty table and a server that reacts as listed\<close>
  "fresh_db reactions = \<lparr>conn = False, cursor = False, accepts = True, server = reactions,
                          executed = [], table = Map.empty\<rparr>"

definition connected_db :: "outcome list \<Rightarrow> dbHandler" where
  \<comment> \<open>\<open>fresh_db\<close> after \<open>connectDb\<close>\<close>
  "connected_db reactions = (fresh_db reactions)\<lparr>conn := True, cursor := True\<rparr>"

definition nearly_full :: "outcome list \<Rightarrow> main_state" where
  \<comment> \<open>the variables of \<open>main\<close> after 4999 times the line \<open>apostrophe_line\<close>\<close>
  "nearly_full reactions =
     (append_rows (replicate 4999 apostrophe_row) (initial (connected_db reactions)))
       \<lparr>line_count := 5000\<rparr>"




fun joined :: "geo_row list \<Rightarrow> string" where
  \<comment> \<open>the value tuples of the rows, separated by commas\<close>
  "joined [] = []"
| "joined [r] = values_text r"
| "joined (r # rs) = values_text r @ '','' @ joined rs"

definition batch_is_text :: "main_state \<Rightarrow> bool" where
  \<comment> \<open>\<open>batch\<close> holds exactly the rows whose text is in \<open>sql_values\<close>, and \<open>count\<close> counts them\<close>
  "batch_is_text st = (sql_values st = joined (batch st) \<and> count st = length (batch st))"

fun is_flush_event :: "log_event \<Rightarrow> bool" where
  "is_flush_event (Inserting c t l) = True"
| "is_flush_event (Inserting_last_batch c t l) = True"
| "is_flush_event _ = False"

definition flush_events :: "log_event list \<Rightarrow> log_event list" where
  \<comment> \<open>the log lines that announce a bulk insert, in order\<close>
  "flush_events log = filter is_flush_event log"


definition raised :: "(error \<times> main_state) + main_state \<Rightarrow> bool" where
  "raised res = (case res of Inl _ \<Rightarrow> True | Inr _ \<Rightarrow> False)"

definition statement :: "main_state \<Rightarrow> string" where
  \<comment> \<open>\<open>sql_insert + sql_values + sql_conflict\<close>\<close>
  "statement st = sql_insert @ sql_values st @ sql_conflict"

definition with_table :: "geo_ip \<Rightarrow> main_state \<Rightarrow> main_state" where
  "with_table t st = st\<lparr>db := (db st)\<lparr>table := t\<rparr>\<rparr>"

definition map_outcome ::
  "(main_state \<Rightarrow> main_state) \<Rightarrow> (error \<times> main_state) + main_state \<Rightarrow>
   (error \<times> main_state) + main_state" where
  "map_outcome f res = (case res of Inl (e, st) \<Rightarrow> Inl (e, f st) | Inr st \<Rightarrow> Inr (f st))"


section \<open>Verification\<close>

subsection \<open>Rules for evaluating the definitions on concrete inputs\<close>

lemmas csv_defs = csv_reader_first_def Reader_iternext_def parse_process_char_def start_field_def
  then_state_def parse_add_char_def parse_save_field_def parse_reset_def is_crlf_def delimiter_def
  quotechar_def field_limit_def

lemmas ipv4_defs = iprange_to_cidrs_ipv4_def parse_ipv4_def octet_def digit_val_def str_cidr4_def
  str_ipv4_def str_nat.simps digit_def iprange_to_cidrs_def cidrs_from.simps largest_block.simps

lemmas row_defs = record_rows_def stripped_line_def rstrip_nl_def replace_quote_def idx_def
  make_row_def encode_ascii_ignore_def decode_ascii_def is_ascii_def

lemma spec_line_fields: "csv_reader_first (stripped_line spec_line) = Inr spec_fields"
  by (simp add: spec_line_def spec_fields_def stripped_line_def rstrip_nl_def replace_quote_def
      csv_defs)

lemma dbip_line_fields: "csv_reader_first (stripped_line dbip_line) = Inr dbip_fields"
  by (simp add: dbip_line_def dbip_fields_def stripped_line_def rstrip_nl_def replace_quote_def
      csv_defs)

lemma example_cidrs:
  "iprange_to_cidrs_ipv4 ''1.1.1.18'' ''1.1.1.20'' = Inr [''1.1.1.18/31'', ''1.1.1.20/32'']"
  by (simp add: ipv4_defs)

lemma dbip_line_rows:
  "record_rows iprange_to_cidrs_ipv4 dbip_line =
     Inr [dbip_row ''1.1.1.18/31'', dbip_row ''1.1.1.20/32'']"
  by (simp add: record_rows_def dbip_line_fields dbip_fields_def example_cidrs idx_def
      make_row_def encode_ascii_ignore_def decode_ascii_def is_ascii_def dbip_row_def)

subsection \<open>The CSV reader only returns characters of its input\<close>

lemma reader_chars_save [simp]: "reader_chars (parse_save_field self) = reader_chars self"
  by (auto simp: reader_chars_def parse_save_field_def)

lemma reader_chars_state [simp]: "reader_chars (self\<lparr>r_state := s\<rparr>) = reader_chars self"
  by (simp add: reader_chars_def)

lemma reader_chars_add:
  "parse_add_char self c = Inr self' \<Longrightarrow> reader_chars self' = insert c (reader_chars self)"
  by (auto simp: parse_add_char_def reader_chars_def split: if_splits)

lemma reader_chars_then_state:
  "then_state s (parse_add_char self c) = Inr self' \<Longrightarrow>
   reader_chars self' = insert c (reader_chars self)"
  by (auto simp: then_state_def split: sum.splits dest: reader_chars_add)

lemma start_field_chars:
  "start_field self c = Inr self' \<Longrightarrow> reader_chars self' \<subseteq> reader_chars self \<union> set_option c"
  by (auto simp: start_field_def split: option.splits if_splits dest!: reader_chars_then_state)

lemma parse_process_char_chars:
  "parse_process_char self c = Inr self' \<Longrightarrow> reader_chars self' \<subseteq> reader_chars self \<union> set_option c"
  unfolding parse_process_char_def
  by (cases "r_state self"; cases c)
     (auto split: if_splits dest!: reader_chars_then_state reader_chars_add start_field_chars)

lemma process_chars_chars:
  "process_chars self cs = Inr self' \<Longrightarrow> reader_chars self' \<subseteq> reader_chars self \<union> set cs"
proof (induction cs arbitrary: self)
  case Nil
  then show ?case by simp
next
  case (Cons c cs)
  then obtain s1 where s1: "parse_process_char self (Some c) = Inr s1"
    and rest: "process_chars s1 cs = Inr self'"
    by (auto split: sum.splits)
  from parse_process_char_chars [OF s1] Cons.IH [OF rest] show ?case by auto
qed

lemma csv_reader_first_chars:
  assumes "csv_reader_first s = Inr r" and "f \<in> set r"
  shows "set f \<subseteq> set s"
proof -
  from assms(1) obtain s1 s2 where p1: "process_chars parse_reset s = Inr s1"
    and p2: "parse_process_char s1 None = Inr s2"
    and r: "r = r_fields s2 \<or> r = r_fields (parse_save_field s2)"
    by (auto simp: csv_reader_first_def Reader_iternext_def split: sum.splits option.splits if_splits)
  have "reader_chars parse_reset = {}" by (simp add: reader_chars_def parse_reset_def)
  with process_chars_chars [OF p1] parse_process_char_chars [OF p2]
  have sub: "reader_chars s2 \<subseteq> set s" by auto
  from r assms(2) have "set f \<subseteq> reader_chars s2"
    by (auto simp: reader_chars_def parse_save_field_def)
  with sub show ?thesis by blast
qed

lemma stripped_line_no_quote: "CHR 0x27 \<notin> set (stripped_line line)"
  by (simp add: stripped_line_def replace_quote_def)

lemma decode_encode: "decode_ascii (encode_ascii_ignore s) = Inr (filter is_ascii s)"
  by (simp add: decode_ascii_def encode_ascii_ignore_def list_all_iff)

lemma make_row_eq:
  "make_row t a r =
     (if length r < 8 then Inl IndexError
      else Inr \<lparr>family = t, ip = a, city = filter is_ascii (r ! 5),
                stateprov = filter is_ascii (r ! 4), country = r ! 3, latitude = r ! 6,
                longitude = r ! 7, timezone_offset = 0, timezone_name = ''UTC'',
                isp_name = []\<rparr>)"
  by (simp add: make_row_def idx_def decode_encode)

lemma make_rows_eq:
  "make_rows t ips r =
     (if ips = [] then Inr []
      else if length r < 8 then Inl IndexError
      else Inr (map (\<lambda>a. \<lparr>family = t, ip = a, city = filter is_ascii (r ! 5),
                stateprov = filter is_ascii (r ! 4), country = r ! 3, latitude = r ! 6,
                longitude = r ! 7, timezone_offset = 0, timezone_name = ''UTC'',
                isp_name = []\<rparr>) ips))"
  by (induction ips) (simp_all add: make_row_eq)

lemma record_rows_Inr:
  assumes "record_rows expand line = Inr rows"
  obtains r ips where "csv_reader_first (stripped_line line) = Inr r" "2 \<le> length r"
    "expand (r ! 0) (r ! 1) = Inr ips"
    "make_rows (if CHR ''.'' \<in> set (r ! 0) then 4 else 6) ips r = Inr rows"
  using assms
  by (auto simp: record_rows_def idx_def split: sum.splits if_splits)


subsection \<open>The rows of one input line\<close>

lemma apostrophe_line_rows:
  "record_rows iprange_to_cidrs_ipv4 apostrophe_line = Inr [apostrophe_row]"
  by (simp add: apostrophe_line_def apostrophe_row_def row_defs csv_defs ipv4_defs)

lemma str_nat_digits: "set (str_nat n) \<subseteq> set ''0123456789''"
proof (induction n rule: str_nat.induct)
  case (1 n)
  have d: "digit k \<in> set ''0123456789''" if "k < 10" for k
    unfolding digit_def using that by (intro nth_mem) simp
  show ?case
  proof (cases "n < 10")
    case True
    then show ?thesis using d [of n] by (subst str_nat.simps) simp
  next
    case False
    have "n mod 10 < 10" by simp
    with False 1 d [of "n mod 10"] show ?thesis by (subst str_nat.simps) simp
  qed
qed

lemma str_cidr4_no_quote: "CHR 0x27 \<notin> set (str_cidr4 b)"
  using str_nat_digits [of "fst b div 16777216"] str_nat_digits [of "fst b div 65536 mod 256"]
    str_nat_digits [of "fst b div 256 mod 256"] str_nat_digits [of "fst b mod 256"]
    str_nat_digits [of "snd b"]
  by (auto simp: str_cidr4_def str_ipv4_def)

lemma ipv4_no_quote:
  "iprange_to_cidrs_ipv4 a b = Inr ips \<Longrightarrow> s \<in> set ips \<Longrightarrow> CHR 0x27 \<notin> set s"
  by (auto simp: iprange_to_cidrs_ipv4_def str_cidr4_no_quote split: option.splits sum.splits)

lemma record_rows_fields:
  assumes "record_rows expand line = Inr rows" and "row \<in> set rows"
  obtains r ips a where "csv_reader_first (stripped_line line) = Inr r" "8 \<le> length r"
    "expand (r ! 0) (r ! 1) = Inr ips" "a \<in> set ips"
    "row = \<lparr>family = (if CHR ''.'' \<in> set (r ! 0) then 4 else 6), ip = a,
            city = filter is_ascii (r ! 5), stateprov = filter is_ascii (r ! 4),
            country = r ! 3, latitude = r ! 6, longitude = r ! 7, timezone_offset = 0,
            timezone_name = ''UTC'', isp_name = []\<rparr>"
proof -
  from assms(1) obtain r ips where r: "csv_reader_first (stripped_line line) = Inr r"
    and e: "expand (r ! 0) (r ! 1) = Inr ips"
    and m: "make_rows (if CHR ''.'' \<in> set (r ! 0) then 4 else 6) ips r = Inr rows"
    by (rule record_rows_Inr)
  from m assms(2) have "8 \<le> length r \<and> (\<exists>a\<in>set ips. row = \<lparr>family = (if CHR ''.'' \<in> set (r ! 0) then 4 else 6), ip = a,
            city = filter is_ascii (r ! 5), stateprov = filter is_ascii (r ! 4),
            country = r ! 3, latitude = r ! 6, longitude = r ! 7, timezone_offset = 0,
            timezone_name = ''UTC'', isp_name = []\<rparr>)"
    by (auto simp: make_rows_eq split: if_splits)
  with r e that show ?thesis by blast
qed

subsection \<open>Which exceptions a line can raise\<close>



lemma then_state_err: "then_state s (parse_add_char self c) = Inl e \<Longrightarrow> e = CsvError"
  by (auto simp: then_state_def parse_add_char_def split: sum.splits if_splits)







subsection \<open>The greedy range expander\<close>

lemma largest_block_le: "largest_block k cur e \<le> k"
  by (induction k cur e rule: largest_block.induct) (subst largest_block.simps, auto)

lemma largest_block_dvd: "2 ^ largest_block k cur e dvd cur"
  by (induction k cur e rule: largest_block.induct) (subst largest_block.simps, auto)

lemma largest_block_fits: "cur \<le> e \<Longrightarrow> cur + 2 ^ largest_block k cur e \<le> Suc e"
  by (induction k cur e rule: largest_block.induct) (subst largest_block.simps, auto)

lemma largest_block_max:
  "j \<le> k \<Longrightarrow> 2 ^ j dvd cur \<Longrightarrow> cur + 2 ^ j \<le> Suc e \<Longrightarrow> j \<le> largest_block k cur e"
proof (induction k cur e rule: largest_block.induct)
  case (1 k cur e)
  show ?case
  proof (cases "k = 0 \<or> (2 ^ k dvd cur \<and> cur + 2 ^ k \<le> Suc e)")
    case True
    with "1.prems" show ?thesis by (subst largest_block.simps) auto
  next
    case False
    with "1.prems" have "j \<noteq> k" by auto
    with "1.prems" have "j \<le> k - 1" by simp
    with False "1.IH" "1.prems" have "j \<le> largest_block (k - 1) cur e" by blast
    with False show ?thesis by (subst largest_block.simps) auto
  qed
qed

lemma block_addrs_largest:
  "block_addrs w (cur, w - largest_block w cur e) = {cur ..< cur + 2 ^ largest_block w cur e}"
  using largest_block_le [of w cur e] by (simp add: block_addrs_def)

lemma cidrs_from_fst_ge: "b \<in> set (cidrs_from w cur e) \<Longrightarrow> cur \<le> fst b"
proof (induction w cur e rule: cidrs_from.induct)
  case (1 w cur e)
  show ?case
  proof (cases "e < cur")
    case True
    with "1.prems" show ?thesis by (simp add: cidrs_from.simps)
  next
    case False
    with "1.prems" have "b = (cur, w - largest_block w cur e) \<or>
        b \<in> set (cidrs_from w (cur + 2 ^ largest_block w cur e) e)"
      by (subst (asm) cidrs_from.simps) simp
    with False "1.IH" show ?thesis by fastforce
  qed
qed

lemma cidrs_from_union: "\<Union> (block_addrs w ` set (cidrs_from w cur e)) = {cur..e}"
proof (induction w cur e rule: cidrs_from.induct)
  case (1 w cur e)
  show ?case
  proof (cases "e < cur")
    case True
    then show ?thesis by (simp add: cidrs_from.simps)
  next
    case False
    then have fits: "cur + 2 ^ largest_block w cur e \<le> Suc e"
      by (simp add: largest_block_fits)
    have "\<Union> (block_addrs w ` set (cidrs_from w cur e)) =
        {cur ..< cur + 2 ^ largest_block w cur e} \<union> {cur + 2 ^ largest_block w cur e .. e}"
      using False "1.IH" by (subst cidrs_from.simps) (simp add: block_addrs_largest)
    also have "\<dots> = {cur..e}" using fits by auto
    finally show ?thesis .
  qed
qed

lemma cidrs_from_valid:
  "e < 2 ^ w \<Longrightarrow> b \<in> set (cidrs_from w cur e) \<Longrightarrow> valid_cidr w b"
proof (induction w cur e rule: cidrs_from.induct)
  case (1 w cur e)
  show ?case
  proof (cases "e < cur")
    case True
    with "1.prems" show ?thesis by (simp add: cidrs_from.simps)
  next
    case False
    from "1.prems" False have "b = (cur, w - largest_block w cur e) \<or>
        b \<in> set (cidrs_from w (cur + 2 ^ largest_block w cur e) e)"
      by (subst (asm) cidrs_from.simps) simp
    then show ?thesis
    proof
      assume b: "b = (cur, w - largest_block w cur e)"
      have "w - (w - largest_block w cur e) = largest_block w cur e"
        using largest_block_le [of w cur e] by simp
      moreover have "cur + 2 ^ largest_block w cur e \<le> 2 ^ w"
        using largest_block_fits [of cur e w] False "1.prems"(1) by simp
      ultimately show ?thesis using b largest_block_dvd [of w cur e]
        by (simp add: valid_cidr_def)
    next
      assume "b \<in> set (cidrs_from w (cur + 2 ^ largest_block w cur e) e)"
      with False "1.IH" "1.prems"(1) show ?thesis by blast
    qed
  qed
qed

lemma cidrs_from_sorted:
  "sorted_wrt (\<lambda>a b. fst a + 2 ^ (w - snd a) \<le> fst b) (cidrs_from w cur e)"
proof (induction w cur e rule: cidrs_from.induct)
  case (1 w cur e)
  show ?case
  proof (cases "e < cur")
    case True
    then show ?thesis by (simp add: cidrs_from.simps)
  next
    case False
    have "w - (w - largest_block w cur e) = largest_block w cur e"
      using largest_block_le [of w cur e] by simp
    with False "1.IH" cidrs_from_fst_ge [of _ w "cur + 2 ^ largest_block w cur e" e]
    show ?thesis by (subst cidrs_from.simps) auto
  qed
qed

lemma two_powers_sum:
  fixes m i j :: nat
  assumes "(2::nat) ^ m = 2 ^ i + 2 ^ j"
  shows "i = j \<and> m = Suc i"
proof -
  have aux: "i' = j'" if eq: "(2::nat) ^ m = 2 ^ i' + 2 ^ j'" and le: "i' \<le> j'" for i' j'
  proof (rule ccontr)
    assume "i' \<noteq> j'"
    with le have lt: "i' < j'" by simp
    have "(2::nat) ^ i' < 2 ^ m" using eq by simp
    then have im: "i' < m" by simp
    have "(2::nat) ^ m = 2 ^ i' * 2 ^ (m - i')" using im by (simp flip: power_add)
    moreover have "(2::nat) ^ j' = 2 ^ i' * 2 ^ (j' - i')" using lt by (simp flip: power_add)
    ultimately have "(2::nat) ^ i' * 2 ^ (m - i') = 2 ^ i' * (1 + 2 ^ (j' - i'))"
      using eq by (simp add: algebra_simps)
    then have "(2::nat) ^ (m - i') = 1 + 2 ^ (j' - i')" unfolding mult_cancel1 by simp
    moreover have "even ((2::nat) ^ (m - i'))" using im by simp
    moreover have "even ((2::nat) ^ (j' - i'))" using lt by simp
    ultimately show False by simp
  qed
  have ij: "i = j"
  proof (cases "i \<le> j")
    case True
    with assms aux show ?thesis by blast
  next
    case False
    then have "j \<le> i" by simp
    moreover from assms have "(2::nat) ^ m = 2 ^ j + 2 ^ i" by simp
    ultimately have "j = i" by (rule aux [rotated])
    then show ?thesis by simp
  qed
  with assms have "(2::nat) ^ m = 2 ^ Suc i" by simp
  then have "m = Suc i" using power_inject_exp [of "2::nat" m "Suc i"] by simp
  with ij show ?thesis by simp
qed

lemma cidrs_from_no_merge:
  assumes "e < 2 ^ w"
  shows "successively (\<lambda>a b. \<not> (\<exists>c. valid_cidr w c \<and>
           block_addrs w c = block_addrs w a \<union> block_addrs w b)) (cidrs_from w cur e)"
  using assms
proof (induction w cur e rule: cidrs_from.induct)
  case (1 w cur e)
  let ?k = "largest_block w cur e"
  let ?cur' = "cur + 2 ^ ?k"
  let ?k' = "largest_block w ?cur' e"
  show ?case
  proof (cases "e < cur")
    case True
    then show ?thesis by (simp add: cidrs_from.simps)
  next
    case False
    have unfold: "cidrs_from w cur e = (cur, w - ?k) # cidrs_from w ?cur' e"
      using False by (subst cidrs_from.simps) simp
    have rest: "successively (\<lambda>a b. \<not> (\<exists>c. valid_cidr w c \<and>
           block_addrs w c = block_addrs w a \<union> block_addrs w b)) (cidrs_from w ?cur' e)"
      using False "1.IH" "1.prems" by blast
    show ?thesis
    proof (cases "e < ?cur'")
      case True
      then have "cidrs_from w ?cur' e = []" by (simp add: cidrs_from.simps)
      with unfold show ?thesis by simp
    next
      case next_in: False
      have unfold': "cidrs_from w ?cur' e = (?cur', w - ?k') # cidrs_from w (?cur' + 2 ^ ?k') e"
        using next_in by (subst cidrs_from.simps) simp
      have "\<not> (\<exists>c. valid_cidr w c \<and>
           block_addrs w c = block_addrs w (cur, w - ?k) \<union> block_addrs w (?cur', w - ?k'))"
      proof
        assume "\<exists>c. valid_cidr w c \<and>
           block_addrs w c = block_addrs w (cur, w - ?k) \<union> block_addrs w (?cur', w - ?k')"
        then obtain a p where v: "valid_cidr w (a, p)"
          and eq: "block_addrs w (a, p) = block_addrs w (cur, w - ?k) \<union> block_addrs w (?cur', w - ?k')"
          by auto
        have "block_addrs w (cur, w - ?k) \<union> block_addrs w (?cur', w - ?k') =
            {cur ..< cur + 2 ^ ?k} \<union> {?cur' ..< ?cur' + 2 ^ ?k'}"
          by (simp only: block_addrs_largest)
        also have "\<dots> = {cur ..< cur + (2 ^ ?k + 2 ^ ?k')}" by auto
        finally have "{a ..< a + 2 ^ (w - p)} = {cur ..< cur + (2 ^ ?k + 2 ^ ?k')}"
          using eq by (simp add: block_addrs_def)
        moreover have "a < a + 2 ^ (w - p)" "cur < cur + (2 ^ ?k + 2 ^ ?k')" by simp_all
        ultimately have "a = cur \<and> a + 2 ^ (w - p) = cur + (2 ^ ?k + 2 ^ ?k')"
          by (simp add: atLeastLessThan_eq_iff)
        then have a: "a = cur" and pw: "(2::nat) ^ (w - p) = 2 ^ ?k + 2 ^ ?k'" by simp_all
        from two_powers_sum [OF pw] have kk: "?k = ?k'" and m: "w - p = Suc ?k" by simp_all
        have "2 ^ (w - p) dvd cur" using v a by (simp add: valid_cidr_def)
        moreover have "cur + 2 ^ (w - p) \<le> Suc e"
          using largest_block_fits [of ?cur' e w] next_in pw by simp
        moreover have "w - p \<le> w" by simp
        ultimately have "w - p \<le> ?k" by (intro largest_block_max)
        with m show False by simp
      qed
      with rest unfold unfold' show ?thesis by simp
    qed
  qed
qed

lemma successively_nth:
  "successively P xs \<Longrightarrow> Suc i < length xs \<Longrightarrow> P (xs ! i) (xs ! Suc i)"
proof (induction P xs arbitrary: i rule: successively.induct)
  case (3 P x y xs)
  then show ?case by (cases i) auto
qed simp_all

subsection \<open>The loop of \<open>main\<close> and its log\<close>

lemma append_rows_vars [simp]:
  "count (append_rows rows st) = count st + length rows"
  "batch (append_rows rows st) = batch st @ rows"
  "LOG (append_rows rows st) = LOG st"
  "db (append_rows rows st) = db st"
  "total_count (append_rows rows st) = total_count st"
  "line_count (append_rows rows st) = line_count st"
  by (induction rows arbitrary: st) simp_all

lemma queryNoResults_Inr:
  assumes "queryNoResults q rows st = Inr (v, st')"
  shows "total_count st' = total_count st" "count st' = count st" "line_count st' = line_count st"
    "sql_values st' = sql_values st" "batch st' = batch st"
    "flush_events (LOG st') = flush_events (LOG st)" "cursor (db st') = cursor (db st)"
  using assms
  by (auto simp: queryNoResults_def Let_def flush_events_def split: if_splits outcome.splits)

lemma queryNoResults_Inl:
  assumes "queryNoResults q rows st = Inl (e, st')"
  shows "total_count st' = total_count st" "count st' = count st" "line_count st' = line_count st"
    "sql_values st' = sql_values st" "batch st' = batch st"
    "LOG st' = LOG st" "cursor (db st') = cursor (db st)" "e = DatabaseError"
    "executed (db st') = executed (db st) @ [q]" "server (db st') = tl (server (db st))"
    "table (db st') = table (db st)" "cursor (db st)" "next_outcome (db st) = OtherError"
  using assms
  by (auto simp: queryNoResults_def Let_def split: if_splits outcome.splits)

lemma insert_batch_frame:
  assumes "st' = outcome_state (insert_batch st)"
  shows "total_count st' = total_count st \<and> count st' = count st \<and>
    line_count st' = line_count st \<and> sql_values st' = sql_values st \<and> batch st' = batch st \<and>
    flush_events (LOG st') = flush_events (LOG st)"
proof (cases "queryNoResults (sql_insert @ sql_values st @ sql_conflict) (batch st) st")
  case (Inr p)
  then obtain v s1 where p: "p = (v, s1)" by (cases p)
  with Inr assms have "st' = s1" by (simp add: insert_batch_def outcome_state_def)
  with queryNoResults_Inr [OF Inr [unfolded p]] show ?thesis by simp
next
  case (Inl p)
  then obtain e s1 where p: "p = (e, s1)" by (cases p)
  note f1 = queryNoResults_Inl [OF Inl [unfolded p]]
  let ?s2 = "s1\<lparr>LOG := LOG s1 @ [Trying_again]\<rparr>"
  show ?thesis
  proof (cases "queryNoResults (sql_insert @ sql_values st @ sql_conflict) (batch st) ?s2")
    case (Inr p2)
    then obtain v s3 where p2: "p2 = (v, s3)" by (cases p2)
    with Inl p Inr assms have "st' = s3" by (simp add: insert_batch_def outcome_state_def)
    with queryNoResults_Inr [OF Inr [unfolded p2]] f1 show ?thesis
      by (simp add: flush_events_def)
  next
    case (Inl p2)
    then obtain e2 s3 where p2: "p2 = (e2, s3)" by (cases p2)
    with \<open>queryNoResults (sql_insert @ sql_values st @ sql_conflict) (batch st) st = Inl p\<close> p Inl assms
    have "st' = s3" by (simp add: insert_batch_def outcome_state_def)
    with queryNoResults_Inl [OF Inl [unfolded p2]] f1 show ?thesis
      by (simp add: flush_events_def)
  qed
qed

lemma bulk_insert_below:
  "count st < 5000 \<Longrightarrow> bulk_insert st = Inr st"
  by (simp add: bulk_insert_def)

lemma bulk_insert_flush:
  assumes "5000 \<le> count st" and "st' = outcome_state (bulk_insert st)"
  shows "flush_events (LOG st') =
           flush_events (LOG st) @ [Inserting (count st) (total_count st + count st) (line_count st)]"
    and "total_count st' = total_count st + count st" and "line_count st' = line_count st"
    and "raised (bulk_insert st) \<Longrightarrow>
           sql_values st' = sql_values st \<and> count st' = count st \<and> batch st' = batch st"
    and "\<not> raised (bulk_insert st) \<Longrightarrow> sql_values st' = [] \<and> count st' = 0 \<and> batch st' = []"
proof -
  define s2 where "s2 = st\<lparr>total_count := total_count st + count st,
      LOG := LOG st @ [Inserting (count st) (total_count st + count st) (line_count st)]\<rparr>"
  have b: "bulk_insert st = (case insert_batch s2 of Inl e \<Rightarrow> Inl e
      | Inr st3 \<Rightarrow> Inr (st3\<lparr>sql_values := [], count := 0, batch := []\<rparr>))"
    using assms(1) by (simp add: bulk_insert_def Let_def s2_def)
  note f = insert_batch_frame [OF refl, of s2]
  have s2: "flush_events (LOG s2) =
      flush_events (LOG st) @ [Inserting (count st) (total_count st + count st) (line_count st)]"
    "total_count s2 = total_count st + count st" "line_count s2 = line_count st"
    "sql_values s2 = sql_values st" "count s2 = count st" "batch s2 = batch st"
    by (simp_all add: s2_def flush_events_def)
  show "flush_events (LOG st') =
           flush_events (LOG st) @ [Inserting (count st) (total_count st + count st) (line_count st)]"
    "total_count st' = total_count st + count st" "line_count st' = line_count st"
    using f s2 assms(2) b
    by (auto simp: outcome_state_def split: sum.splits)
  show "sql_values st' = sql_values st \<and> count st' = count st \<and> batch st' = batch st"
    if "raised (bulk_insert st)"
    using that f s2 assms(2) b by (auto simp: outcome_state_def raised_def split: sum.splits)
  show "sql_values st' = [] \<and> count st' = 0 \<and> batch st' = []"
    if "\<not> raised (bulk_insert st)"
    using that f s2 assms(2) b by (auto simp: outcome_state_def raised_def split: sum.splits)
qed


lemma loop_body_Inl: "record_rows expand line = Inl e \<Longrightarrow> loop_body expand line st = Inl (e, st)"
  by (simp add: loop_body_def)

lemma loop_body_below:
  assumes "record_rows expand line = Inr rows" and "count st + length rows < 5000"
  shows "loop_body expand line st =
           Inr ((append_rows rows st)\<lparr>line_count := line_count st + 1\<rparr>)"
  using assms by (simp add: loop_body_def Let_def bulk_insert_below)

lemma loop_body_flush:
  assumes "record_rows expand line = Inr rows" and "5000 \<le> count st + length rows"
    and "st' = outcome_state (loop_body expand line st)"
  shows "flush_events (LOG st') = flush_events (LOG st) @
           [Inserting (count st + length rows) (total_count st + (count st + length rows))
              (line_count st + 1)]"
    and "total_count st' = total_count st + (count st + length rows)"
    and "raised (loop_body expand line st) \<Longrightarrow>
           sql_values st' = sql_values (append_rows rows st) \<and>
           count st' = count st + length rows \<and> batch st' = batch st @ rows"
    and "\<not> raised (loop_body expand line st) \<Longrightarrow>
           sql_values st' = [] \<and> count st' = 0 \<and> batch st' = []"
proof -
  let ?s1 = "(append_rows rows st)\<lparr>line_count := line_count st + 1\<rparr>"
  have l: "loop_body expand line st = bulk_insert ?s1"
    using assms(1) by (simp add: loop_body_def Let_def)
  have c: "5000 \<le> count ?s1" using assms(2) by simp
  note b = bulk_insert_flush [OF c, of st', unfolded l [symmetric], OF assms(3)]
  from b(1) show "flush_events (LOG st') = flush_events (LOG st) @
           [Inserting (count st + length rows) (total_count st + (count st + length rows))
              (line_count st + 1)]" by simp
  from b(2) show "total_count st' = total_count st + (count st + length rows)" by simp
  from b(4) show "sql_values st' = sql_values (append_rows rows st) \<and>
           count st' = count st + length rows \<and> batch st' = batch st @ rows"
    if "raised (loop_body expand line st)" using that by simp
  from b(5) show "sql_values st' = [] \<and> count st' = 0 \<and> batch st' = []"
    if "\<not> raised (loop_body expand line st)" using that by simp
qed


lemma main_loop_raised:
  "line \<noteq> [] \<Longrightarrow> raised (loop_body expand line st) \<Longrightarrow>
   main_loop expand (line # rest) st = loop_body expand line st"
  by (auto simp: raised_def split: sum.splits)

lemma main_loop_step:
  "line \<noteq> [] \<Longrightarrow> loop_body expand line st = Inr st' \<Longrightarrow>
   main_loop expand (line # rest) st = main_loop expand rest st'"
  by simp












lemma append_rows_line_count:
  "append_rows rows (st\<lparr>line_count := k\<rparr>) = (append_rows rows st)\<lparr>line_count := k\<rparr>"
proof (induction rows arbitrary: st)
  case Nil
  show ?case by simp
next
  case (Cons a rows)
  let ?s = "st\<lparr>sql_values := sql_values st @ (if count st \<noteq> 0 then '','' else []) @ values_text a,
      count := count st + 1, batch := batch st @ [a]\<rparr>"
  show ?case using Cons.IH [of ?s] by (cases st) simp
qed

lemma main_loop_replicate:
  assumes "record_rows expand line = Inr [row]" and "line \<noteq> []"
  shows "count st + n < 5000 \<Longrightarrow>
         main_loop expand (replicate n line @ rest) st =
         main_loop expand rest ((append_rows (replicate n row) st)\<lparr>line_count := line_count st + n\<rparr>)"
proof (induction n arbitrary: st)
  case 0
  then show ?case by simp
next
  case (Suc n)
  let ?s1 = "(append_rows [row] st)\<lparr>line_count := line_count st + 1\<rparr>"
  from Suc.prems have "count st + length [row] < 5000" by simp
  from loop_body_below [OF assms(1) this] assms(2)
  have "main_loop expand (replicate (Suc n) line @ rest) st =
      main_loop expand (replicate n line @ rest) ?s1"
    by simp
  also have "\<dots> = main_loop expand rest
      ((append_rows (replicate n row) ?s1)\<lparr>line_count := line_count ?s1 + n\<rparr>)"
    using Suc.prems by (intro Suc.IH) simp
  also have "(append_rows (replicate n row) ?s1)\<lparr>line_count := line_count ?s1 + n\<rparr> =
      (append_rows (replicate (Suc n) row) st)\<lparr>line_count := line_count st + Suc n\<rparr>"
    by (simp add: append_rows_line_count)
  finally show ?case .
qed

lemma main_loop_nearly_full:
  "main_loop iprange_to_cidrs_ipv4 (replicate 4999 apostrophe_line @ rest)
     (initial (connected_db rs)) = main_loop iprange_to_cidrs_ipv4 rest (nearly_full rs)"
proof -
  have "apostrophe_line \<noteq> []" by (simp add: apostrophe_line_def)
  from main_loop_replicate [OF apostrophe_line_rows this, of "initial (connected_db rs)" 4999 rest]
  show ?thesis by (simp add: nearly_full_def initial_def)
qed

lemma connect_fresh_db: "connectDb (fresh_db rs) = Inr (connected_db rs)"
  by (simp add: connectDb_def fresh_db_def connected_db_def)

lemma nearly_full_vars:
  "count (nearly_full rs) = 4999" "total_count (nearly_full rs) = 0"
  "line_count (nearly_full rs) = 5000" "LOG (nearly_full rs) = []"
  "cursor (db (nearly_full rs))" "server (db (nearly_full rs)) = rs"
  "executed (db (nearly_full rs)) = []"
  "batch (nearly_full rs) = replicate 4999 apostrophe_row"
  by (simp_all add: nearly_full_def initial_def connected_db_def fresh_db_def)

lemma queryNoResults_executed:
  assumes "cursor (db st)"
  shows "queryNoResults q rows st = Inr (v, st') \<Longrightarrow> executed (db st') = executed (db st) @ [q]"
    and "queryNoResults q rows st = Inl (e, st') \<Longrightarrow> executed (db st') = executed (db st) @ [q]"
  using assms
  by (auto simp: queryNoResults_def Let_def split: if_splits outcome.splits)

lemma insert_batch_other:
  assumes "cursor (db st)" and "server (db st) = OtherError # later"
  shows "insert_batch st =
    (case queryNoResults (statement st) (batch st)
            (st\<lparr>db := (db st)\<lparr>server := later, executed := executed (db st) @ [statement st]\<rparr>,
                LOG := LOG st @ [Trying_again]\<rparr>) of
       Inr (_, st'') \<Rightarrow> Inr st''
     | Inl e \<Rightarrow> Inl e)"
proof -
  have "queryNoResults (sql_insert @ sql_values st @ sql_conflict) (batch st) st =
      Inl (DatabaseError,
           st\<lparr>db := (db st)\<lparr>server := later, executed := executed (db st) @ [statement st]\<rparr>\<rparr>)"
    using assms by (simp add: queryNoResults_def next_outcome_def Let_def statement_def)
  then show ?thesis by (simp add: insert_batch_def statement_def)
qed

lemma insert_batch_retried:
  assumes "cursor (db st)" and "server (db st) = OtherError # later"
  shows "executed (db (outcome_state (insert_batch st))) =
           executed (db st) @ [statement st, statement st]"
proof -
  let ?s1 = "st\<lparr>db := (db st)\<lparr>server := later, executed := executed (db st) @ [statement st]\<rparr>,
                LOG := LOG st @ [Trying_again]\<rparr>"
  have c: "cursor (db ?s1)" using assms(1) by simp
  show ?thesis
  proof (cases "queryNoResults (statement st) (batch st) ?s1")
    case (Inl p)
    then obtain e s2 where "p = (e, s2)" by (cases p)
    with Inl queryNoResults_executed(2) [OF c, of "statement st" "batch st" e s2]
    show ?thesis unfolding insert_batch_other [OF assms] by (simp add: outcome_state_def)
  next
    case (Inr p)
    then obtain v s2 where "p = (v, s2)" by (cases p)
    with Inr queryNoResults_executed(1) [OF c, of "statement st" "batch st" v s2]
    show ?thesis unfolding insert_batch_other [OF assms] by (simp add: outcome_state_def)
  qed
qed

lemma insert_batch_twice_other:
  assumes "cursor (db st)" and "server (db st) = OtherError # OtherError # later"
  shows "insert_batch st =
    Inl (DatabaseError,
         st\<lparr>db := (db st)\<lparr>server := later,
                            executed := executed (db st) @ [statement st, statement st]\<rparr>,
            LOG := LOG st @ [Trying_again]\<rparr>)"
  unfolding insert_batch_other [OF assms]
  using assms(1) by (simp add: queryNoResults_def next_outcome_def Let_def)

lemma insert_batch_programming:
  assumes "cursor (db st)" and "server (db st) = ProgrammingError # later"
  shows "insert_batch st =
    Inr (st\<lparr>db := (db st)\<lparr>server := later, executed := executed (db st) @ [statement st]\<rparr>,
            LOG := LOG st @ [Query_failed]\<rparr>)"
  using assms
  by (simp add: insert_batch_def queryNoResults_def next_outcome_def Let_def statement_def)

subsection \<open>The batch and the text of the statement\<close>

text \<open>
  Throughout a run, \<open>sql_values\<close> is the comma-separated text of the rows in \<open>batch\<close>
  and \<open>count\<close> is their number.
\<close>

lemma joined_snoc:
  "joined (rs @ [r]) = joined rs @ (if rs \<noteq> [] then '','' else []) @ values_text r"
  by (induction rs rule: joined.induct) simp_all

lemma append_rows_text:
  "batch_is_text st \<Longrightarrow> batch_is_text (append_rows rows st)"
proof (induction rows arbitrary: st)
  case Nil
  then show ?case by simp
next
  case (Cons row rows)
  let ?s = "st\<lparr>sql_values := sql_values st @ (if count st \<noteq> 0 then '','' else []) @ values_text row,
      count := count st + 1, batch := batch st @ [row]\<rparr>"
  from Cons.prems have "batch_is_text ?s"
    by (simp add: batch_is_text_def joined_snoc)
  from Cons.IH [OF this] show ?case by simp
qed

lemma loop_body_text:
  assumes "batch_is_text st"
  shows "batch_is_text (outcome_state (loop_body expand line st))"
proof (cases "record_rows expand line")
  case (Inl e)
  with assms show ?thesis by (simp add: loop_body_Inl outcome_state_def)
next
  case (Inr rows)
  note a = append_rows_text [OF assms, of rows]
  show ?thesis
  proof (cases "5000 \<le> count st + length rows")
    case False
    then have "count st + length rows < 5000" by simp
    from loop_body_below [OF Inr this] a show ?thesis
      by (simp add: outcome_state_def batch_is_text_def)
  next
    case True
    note f = loop_body_flush [OF Inr True refl]
    show ?thesis
    proof (cases "raised (loop_body expand line st)")
      case True
      from f(3) [OF True] a show ?thesis by (simp add: batch_is_text_def)
    next
      case False
      from f(4) [OF False] show ?thesis by (simp add: batch_is_text_def)
    qed
  qed
qed

lemma main_loop_text:
  "batch_is_text st \<Longrightarrow> batch_is_text (outcome_state (main_loop expand lines st))"
proof (induction lines arbitrary: st)
  case Nil
  then show ?case by (simp add: outcome_state_def)
next
  case (Cons line lines)
  show ?case
  proof (cases "line = []")
    case True
    with Cons.prems show ?thesis by (simp add: outcome_state_def)
  next
    case False
    show ?thesis
    proof (cases "loop_body expand line st")
      case (Inl p)
      then have "raised (loop_body expand line st)" by (simp add: raised_def)
      from main_loop_raised [OF False this] loop_body_text [OF Cons.prems]
      show ?thesis by simp
    next
      case (Inr s1)
      with loop_body_text [OF Cons.prems, of expand line]
      have "batch_is_text s1" by (simp add: outcome_state_def)
      from Cons.IH [OF this] main_loop_step [OF False Inr] show ?thesis by simp
    qed
  qed
qed

lemma initial_text: "batch_is_text (initial d)"
  by (simp add: batch_is_text_def initial_def)

subsection \<open>The table under upserts\<close>



lemma on_conflict_update_twice [simp]:
  "on_conflict_update (on_conflict_update existing r) r' = on_conflict_update existing r'"
  by (simp add: on_conflict_update_def)

lemma on_conflict_update_self [simp]: "on_conflict_update r r = r"
  by (simp add: on_conflict_update_def)











subsection \<open>A run does not look at the table\<close>

lemma with_table_sel [simp]:
  "total_count (with_table t st) = total_count st" "count (with_table t st) = count st"
  "line_count (with_table t st) = line_count st" "sql_values (with_table t st) = sql_values st"
  "batch (with_table t st) = batch st" "LOG (with_table t st) = LOG st"
  "db (with_table t st) = (db st)\<lparr>table := t\<rparr>"
  by (simp_all add: with_table_def)

lemma with_table_twice [simp]: "with_table t (with_table t' st) = with_table t st"
  by (simp add: with_table_def)


lemma statement_with_table [simp]: "statement (with_table t st) = statement st"
  by (simp add: statement_def)

lemma execute_upsert_Nil [simp]: "execute_upsert [] t = t"
  by (simp add: execute_upsert_def)



lemma map_outcome_simps [simp]:
  "map_outcome f (Inl (e, st)) = Inl (e, f st)" "map_outcome f (Inr st) = Inr (f st)"
  by (simp_all add: map_outcome_def)








section \<open>The claims\<close>

subsection \<open>C1: the range expander is exact, ordered, disjoint and minimal\<close>

text \<open>
  C1: for an address width \<open>w\<close> (32 for IPv4, 128 for IPv6) and addresses
  \<open>start \<le> end < 2 ^ w\<close>, the expander returns valid CIDR blocks whose union is
  exactly the inclusive range from \<open>start\<close> to \<open>end\<close>, in ascending order, pairwise
  disjoint, and no two neighbours of the sequence together form one valid CIDR
  block. The expander is the greedy decomposition of section 4.1 of the spec, on the
  numbers that the address texts denote.
\<close>

theorem range_expander_exact_minimal:
  assumes "start \<le> end" and "end < 2 ^ w"
  shows "\<exists>bs. iprange_to_cidrs w start end = Inr bs \<and>
     (\<forall>b\<in>set bs. valid_cidr w b) \<and>
     \<Union> (block_addrs w ` set bs) = {start..end} \<and>
     sorted_wrt (\<lambda>a b. fst a < fst b) bs \<and>
     (\<forall>i j. i < j \<and> j < length bs \<longrightarrow> block_addrs w (bs ! i) \<inter> block_addrs w (bs ! j) = {}) \<and>
     (\<forall>i. Suc i < length bs \<longrightarrow>
        \<not> (\<exists>c. valid_cidr w c \<and>
               block_addrs w c = block_addrs w (bs ! i) \<union> block_addrs w (bs ! Suc i)))"
proof -
  let ?bs = "cidrs_from w start end"
  have r: "iprange_to_cidrs w start end = Inr ?bs"
    using assms by (simp add: iprange_to_cidrs_def)
  have s: "sorted_wrt (\<lambda>a b. fst a + 2 ^ (w - snd a) \<le> fst b) ?bs"
    by (rule cidrs_from_sorted)
  have ord: "sorted_wrt (\<lambda>a b. fst a < fst b) ?bs"
  proof (rule sorted_wrt_mono_rel [OF _ s])
    fix x y :: "nat \<times> nat"
    assume "x \<in> set ?bs" "y \<in> set ?bs" "fst x + 2 ^ (w - snd x) \<le> fst y"
    moreover have "(0::nat) < 2 ^ (w - snd x)" by simp
    ultimately show "fst x < fst y" by linarith
  qed
  have disj: "block_addrs w (?bs ! i) \<inter> block_addrs w (?bs ! j) = {}"
    if "i < j" "j < length ?bs" for i j
    using sorted_wrt_nth_less [OF s that] by (auto simp: block_addrs_def)
  have nm: "\<not> (\<exists>c. valid_cidr w c \<and>
               block_addrs w c = block_addrs w (?bs ! i) \<union> block_addrs w (?bs ! Suc i))"
    if "Suc i < length ?bs" for i
    using successively_nth [OF cidrs_from_no_merge [OF assms(2)] that] .
  show ?thesis
    using r cidrs_from_valid [OF assms(2)] cidrs_from_union ord disj nm by blast
qed

theorem range_expander_exact_minimal_witness:
  "(16843026::nat) \<le> 16843028 \<and> (16843028::nat) < 2 ^ 32 \<and>
   iprange_to_cidrs 32 16843026 16843028 = Inr [(16843026, 31), (16843028, 32)] \<and>
   \<Union> (block_addrs 32 ` set [(16843026, 31), (16843028, 32)]) = {16843026..16843028} \<and>
   block_addrs 32 (16843026, 31) \<inter> block_addrs 32 (16843028, 32) = {} \<and>
   \<not> (\<exists>c. valid_cidr 32 c \<and>
          block_addrs 32 c = block_addrs 32 (16843026, 31) \<union> block_addrs 32 (16843028, 32)) \<and>
   (170141183460469231731687303715884105728::nat) \<le> 340282366920938463463374607431768211455 \<and>
   (340282366920938463463374607431768211455::nat) < 2 ^ 128 \<and>
   iprange_to_cidrs 128 170141183460469231731687303715884105728
       340282366920938463463374607431768211455 =
     Inr [(170141183460469231731687303715884105728, 1)]"
proof -
  have h: "(16843026::nat) \<le> 16843028" "(16843028::nat) < 2 ^ 32" by simp_all
  have e: "iprange_to_cidrs 32 16843026 16843028 = Inr [(16843026, 31), (16843028, 32)]"
    by (simp add: iprange_to_cidrs_def cidrs_from.simps largest_block.simps)
  have h6: "(170141183460469231731687303715884105728::nat) \<le> 340282366920938463463374607431768211455"
    "(340282366920938463463374607431768211455::nat) < 2 ^ 128" by simp_all
  have e6: "iprange_to_cidrs 128 170141183460469231731687303715884105728
       340282366920938463463374607431768211455 =
     Inr [(170141183460469231731687303715884105728, 1)]"
    by (simp add: iprange_to_cidrs_def cidrs_from.simps largest_block.simps)
  from range_expander_exact_minimal [OF h] e
  have u: "\<Union> (block_addrs 32 ` set [(16843026, 31), (16843028, 32)]) = {16843026..16843028}"
    and d: "\<forall>i j. i < j \<and> j < length [(16843026::nat, 31::nat), (16843028, 32)] \<longrightarrow>
        block_addrs 32 ([(16843026, 31), (16843028, 32)] ! i) \<inter>
        block_addrs 32 ([(16843026, 31), (16843028, 32)] ! j) = {}"
    and m: "\<forall>i. Suc i < length [(16843026::nat, 31::nat), (16843028, 32)] \<longrightarrow>
        \<not> (\<exists>c. valid_cidr 32 c \<and>
               block_addrs 32 c = block_addrs 32 ([(16843026, 31), (16843028, 32)] ! i) \<union>
                 block_addrs 32 ([(16843026, 31), (16843028, 32)] ! Suc i))"
    by auto
  from d [rule_format, of 0 1] have d': "block_addrs 32 (16843026, 31) \<inter> block_addrs 32 (16843028, 32) = {}"
    by simp
  from m [rule_format, of 0] have m': "\<not> (\<exists>c. valid_cidr 32 c \<and>
          block_addrs 32 c = block_addrs 32 (16843026, 31) \<union> block_addrs 32 (16843028, 32))"
    by simp
  show ?thesis using h e u d' m' h6 e6 by blast
qed


subsection \<open>C2: which CSV field goes to which column\<close>

text \<open>
  C2 as stated fails: the script reads \<open>r[3]\<close> to \<open>r[7]\<close>, so the seven-field line
  \<open>1.1.1.18,1.1.1.20,US,CA,"Example City",37.0,-122.0\<close> of the scenario has no \<open>r[7]\<close>
  and raises \<open>IndexError\<close> instead of producing two rows.
\<close>

theorem spec_line_raises_counterexample:
  "record_rows iprange_to_cidrs_ipv4 spec_line = Inl IndexError"
  by (simp add: record_rows_def spec_line_fields spec_fields_def example_cidrs idx_def make_rows_eq)

text \<open>
  C2, amended: for a line that parses into at least eight fields, every row has
  \<open>country\<close> from the fourth field, \<open>stateprov\<close> from the fifth and \<open>city\<close> from the
  sixth (both reduced to ASCII), \<open>latitude\<close> from the seventh and \<open>longitude\<close> from the
  eighth; the third field and the fields after the eighth are not used. A line with
  fewer than eight fields whose range expands to at least one block raises
  \<open>IndexError\<close>. The line \<open>1.1.1.18,1.1.1.20,NA,US,CA,"Example City",37.0,-122.0\<close>
  gives two rows with city \<open>Example City\<close>.
\<close>

theorem field_positions:
  "(csv_reader_first (stripped_line line) = Inr r \<and> expand (r ! 0) (r ! 1) = Inr ips \<longrightarrow>
      (8 \<le> length r \<longrightarrow>
         record_rows expand line =
           Inr (map (\<lambda>a. \<lparr>family = (if CHR ''.'' \<in> set (r ! 0) then 4 else 6), ip = a,
                          city = filter is_ascii (r ! 5), stateprov = filter is_ascii (r ! 4),
                          country = r ! 3, latitude = r ! 6, longitude = r ! 7,
                          timezone_offset = 0, timezone_name = ''UTC'', isp_name = []\<rparr>) ips)) \<and>
      (length r < 8 \<and> ips \<noteq> [] \<longrightarrow> record_rows expand line = Inl IndexError)) \<and>
   map city (rows_of (record_rows iprange_to_cidrs_ipv4 dbip_line)) =
     [''Example City'', ''Example City'']"
proof -
  have "map city (rows_of (record_rows iprange_to_cidrs_ipv4 dbip_line)) =
     [''Example City'', ''Example City'']"
    by (simp add: dbip_line_rows rows_of_def dbip_row_def)
  moreover have "record_rows expand line =
           Inr (map (\<lambda>a. \<lparr>family = (if CHR ''.'' \<in> set (r ! 0) then 4 else 6), ip = a,
                          city = filter is_ascii (r ! 5), stateprov = filter is_ascii (r ! 4),
                          country = r ! 3, latitude = r ! 6, longitude = r ! 7,
                          timezone_offset = 0, timezone_name = ''UTC'', isp_name = []\<rparr>) ips)"
    if "csv_reader_first (stripped_line line) = Inr r" "expand (r ! 0) (r ! 1) = Inr ips"
      "8 \<le> length r"
  proof -
    from that(3) have "0 < length r" "1 < length r" "\<not> length r < 8" by linarith+
    with that(1,2) show ?thesis by (simp add: record_rows_def idx_def make_rows_eq)
  qed
  moreover have "record_rows expand line = Inl IndexError"
    if "csv_reader_first (stripped_line line) = Inr r" "expand (r ! 0) (r ! 1) = Inr ips"
      "length r < 8" "ips \<noteq> []"
    using that by (simp add: record_rows_def idx_def make_rows_eq split: sum.splits)
  ultimately show ?thesis by blast
qed

theorem field_positions_witness:
  "csv_reader_first (stripped_line dbip_line) = Inr dbip_fields \<and>
   iprange_to_cidrs_ipv4 (dbip_fields ! 0) (dbip_fields ! 1) = Inr [''1.1.1.18/31'', ''1.1.1.20/32''] \<and>
   8 \<le> length dbip_fields \<and>
   record_rows iprange_to_cidrs_ipv4 dbip_line =
     Inr [dbip_row ''1.1.1.18/31'', dbip_row ''1.1.1.20/32''] \<and>
   country (dbip_row ''1.1.1.18/31'') = dbip_fields ! 3 \<and>
   csv_reader_first (stripped_line spec_line) = Inr spec_fields \<and>
   iprange_to_cidrs_ipv4 (spec_fields ! 0) (spec_fields ! 1) = Inr [''1.1.1.18/31'', ''1.1.1.20/32''] \<and>
   length spec_fields < 8 \<and>
   record_rows iprange_to_cidrs_ipv4 spec_line = Inl IndexError"
proof -
  have c: "iprange_to_cidrs_ipv4 (dbip_fields ! 0) (dbip_fields ! 1) =
      Inr [''1.1.1.18/31'', ''1.1.1.20/32'']"
    by (simp add: dbip_fields_def example_cidrs)
  have c': "iprange_to_cidrs_ipv4 (spec_fields ! 0) (spec_fields ! 1) =
      Inr [''1.1.1.18/31'', ''1.1.1.20/32'']"
    by (simp add: spec_fields_def example_cidrs)
  have l: "8 \<le> length dbip_fields" "length spec_fields < 8"
    by (simp_all add: dbip_fields_def spec_fields_def)
  from field_positions [of dbip_line dbip_fields iprange_to_cidrs_ipv4
      "[''1.1.1.18/31'', ''1.1.1.20/32'']"] dbip_line_fields c l
  have 1: "record_rows iprange_to_cidrs_ipv4 dbip_line =
     Inr [dbip_row ''1.1.1.18/31'', dbip_row ''1.1.1.20/32'']"
    by (simp add: dbip_fields_def dbip_row_def is_ascii_def)
  from field_positions [of spec_line spec_fields iprange_to_cidrs_ipv4
      "[''1.1.1.18/31'', ''1.1.1.20/32'']"] spec_line_fields c' l
  have 2: "record_rows iprange_to_cidrs_ipv4 spec_line = Inl IndexError"
    by simp
  have 3: "country (dbip_row ''1.1.1.18/31'') = dbip_fields ! 3"
    by (simp add: dbip_row_def dbip_fields_def)
  show ?thesis using 1 2 3 dbip_line_fields spec_line_fields c c' l by simp
qed

subsection \<open>C7: the address family\<close>

text \<open>
  C7: every row made from an input line has family 4 if the first field, the start
  address text, contains the character \<open>.\<close> and 6 otherwise; the text is not parsed
  for this.
\<close>

theorem address_family_by_dot:
  "record_rows expand line = Inr rows \<Longrightarrow> csv_reader_first (stripped_line line) = Inr r \<Longrightarrow>
   \<forall>row\<in>set rows. family row = (if CHR ''.'' \<in> set (r ! 0) then 4 else 6)"
proof (intro ballI)
  fix row
  assume a: "record_rows expand line = Inr rows" "csv_reader_first (stripped_line line) = Inr r"
    and row: "row \<in> set rows"
  from a(1) row obtain r' and ips :: "string list" and b where r': "csv_reader_first (stripped_line line) = Inr r'"
    and eq: "row = \<lparr>family = (if CHR ''.'' \<in> set (r' ! 0) then 4 else 6), ip = b,
            city = filter is_ascii (r' ! 5), stateprov = filter is_ascii (r' ! 4),
            country = r' ! 3, latitude = r' ! 6, longitude = r' ! 7, timezone_offset = 0,
            timezone_name = ''UTC'', isp_name = []\<rparr>"
    by (rule record_rows_fields)
  from r' a(2) have "r' = r" by simp
  with eq show "family row = (if CHR ''.'' \<in> set (r ! 0) then 4 else 6)" by simp
qed

theorem address_family_by_dot_witness:
  "record_rows iprange_to_cidrs_ipv4 dbip_line =
     Inr [dbip_row ''1.1.1.18/31'', dbip_row ''1.1.1.20/32''] \<and>
   csv_reader_first (stripped_line dbip_line) = Inr dbip_fields \<and>
   CHR ''.'' \<in> set (dbip_fields ! 0) \<and>
   family (dbip_row ''1.1.1.18/31'') = 4 \<and> family (dbip_row ''1.1.1.20/32'') = 4"
  using address_family_by_dot [OF dbip_line_rows dbip_line_fields] dbip_line_rows dbip_line_fields
  by (simp add: dbip_fields_def)

subsection \<open>C8: the constant columns\<close>

text \<open>
  C8 as stated fails in its last part: the tenth column, \<open>isp_name\<close>, is the empty
  string, which identifies nothing.
\<close>

theorem isp_name_empty_counterexample:
  "map isp_name (rows_of (record_rows iprange_to_cidrs_ipv4 dbip_line)) = [[], []]"
  by (simp add: dbip_line_rows rows_of_def dbip_row_def)

text \<open>
  C8, amended: every row has \<open>timezone_offset\<close> 0, \<open>timezone_name\<close> \<open>UTC\<close> and the empty
  string as \<open>isp_name\<close>; its SQL text ends with \<open>0, 'UTC', '') \<close>.
\<close>

theorem fixed_columns:
  "record_rows expand line = Inr rows \<Longrightarrow>
   \<forall>row\<in>set rows. timezone_offset row = 0 \<and> timezone_name row = ''UTC'' \<and> isp_name row = [] \<and>
     (\<exists>pre. values_text row = pre @ ''0, 'UTC', '' @ [CHR 0x27, CHR 0x27] @ '') '')"
proof
  fix row assume a: "record_rows expand line = Inr rows" "row \<in> set rows"
  then obtain r and ips :: "string list" and b where "row = \<lparr>family = (if CHR ''.'' \<in> set (r ! 0) then 4 else 6), ip = b,
            city = filter is_ascii (r ! 5), stateprov = filter is_ascii (r ! 4),
            country = r ! 3, latitude = r ! 6, longitude = r ! 7, timezone_offset = 0,
            timezone_name = ''UTC'', isp_name = []\<rparr>"
    by (rule record_rows_fields)
  then show "timezone_offset row = 0 \<and> timezone_name row = ''UTC'' \<and> isp_name row = [] \<and>
     (\<exists>pre. values_text row = pre @ ''0, 'UTC', '' @ [CHR 0x27, CHR 0x27] @ '') '')"
    by (simp add: values_text_def quoted_def str_nat.simps digit_def)
qed

theorem fixed_columns_witness:
  "record_rows iprange_to_cidrs_ipv4 dbip_line =
     Inr [dbip_row ''1.1.1.18/31'', dbip_row ''1.1.1.20/32''] \<and>
   timezone_offset (dbip_row ''1.1.1.18/31'') = 0 \<and>
   timezone_name (dbip_row ''1.1.1.18/31'') = ''UTC'' \<and>
   isp_name (dbip_row ''1.1.1.18/31'') = []"
  using fixed_columns [OF dbip_line_rows] dbip_line_rows by simp


subsection \<open>C9: city and state are reduced to ASCII\<close>



subsection \<open>C10: single quotes are removed from the whole line\<close>

text \<open>
  C10: the line handed to the CSV reader holds no single quote, so no column taken
  from the line (city, stateprov, country, latitude, longitude) holds one, nor do
  the constant columns; the \<open>ip\<close> column holds none as long as the expander prints
  none. An apostrophe of the input is lost without an error.
\<close>

theorem quotes_removed:
  "CHR 0x27 \<notin> set (stripped_line line) \<and>
   (record_rows expand line = Inr rows \<longrightarrow>
      (\<forall>row\<in>set rows.
         CHR 0x27 \<notin> set (city row) \<union> set (stateprov row) \<union> set (country row) \<union>
                     set (latitude row) \<union> set (longitude row) \<union>
                     set (timezone_name row) \<union> set (isp_name row) \<and>
         ((\<forall>a b ips. expand a b = Inr ips \<longrightarrow> (\<forall>s\<in>set ips. CHR 0x27 \<notin> set s)) \<longrightarrow>
            CHR 0x27 \<notin> set (ip row))))"
proof (intro conjI impI ballI)
  show "CHR 0x27 \<notin> set (stripped_line line)" by (rule stripped_line_no_quote)
next
  fix row
  assume a: "record_rows expand line = Inr rows" and row: "row \<in> set rows"
  then obtain r ips b where r: "csv_reader_first (stripped_line line) = Inr r"
    and len: "8 \<le> length r" and e: "expand (r ! 0) (r ! 1) = Inr ips" and b: "b \<in> set ips"
    and eq: "row = \<lparr>family = (if CHR ''.'' \<in> set (r ! 0) then 4 else 6), ip = b,
            city = filter is_ascii (r ! 5), stateprov = filter is_ascii (r ! 4),
            country = r ! 3, latitude = r ! 6, longitude = r ! 7, timezone_offset = 0,
            timezone_name = ''UTC'', isp_name = []\<rparr>"
    by (rule record_rows_fields)
  have nq: "CHR 0x27 \<notin> set (r ! i)" if "i < 8" for i
  proof -
    from that len have "r ! i \<in> set r" by simp
    from csv_reader_first_chars [OF r this] stripped_line_no_quote [of line]
    show ?thesis by blast
  qed
  from nq [of 3] nq [of 4] nq [of 5] nq [of 6] nq [of 7] eq
  show "CHR 0x27 \<notin> set (city row) \<union> set (stateprov row) \<union> set (country row) \<union>
                     set (latitude row) \<union> set (longitude row) \<union>
                     set (timezone_name row) \<union> set (isp_name row)"
    by simp
  show "CHR 0x27 \<notin> set (ip row)"
    if "\<forall>a b ips. expand a b = Inr ips \<longrightarrow> (\<forall>s\<in>set ips. CHR 0x27 \<notin> set s)"
    using that e b eq by auto
qed

theorem quotes_removed_witness:
  "CHR 0x27 \<in> set apostrophe_line \<and> CHR 0x27 \<notin> set (stripped_line apostrophe_line) \<and>
   record_rows iprange_to_cidrs_ipv4 apostrophe_line = Inr [apostrophe_row] \<and>
   city apostrophe_row = ''OBrien'' \<and>
   CHR 0x27 \<notin> set (city apostrophe_row) \<union> set (stateprov apostrophe_row) \<union>
     set (country apostrophe_row) \<union> set (latitude apostrophe_row) \<union>
     set (longitude apostrophe_row) \<union> set (timezone_name apostrophe_row) \<union>
     set (isp_name apostrophe_row) \<and>
   CHR 0x27 \<notin> set (ip apostrophe_row)"
proof -
  have h: "\<forall>a b ips. iprange_to_cidrs_ipv4 a b = Inr ips \<longrightarrow> (\<forall>s\<in>set ips. CHR 0x27 \<notin> set s)"
    using ipv4_no_quote by blast
  have "CHR 0x27 \<in> set apostrophe_line" by (simp add: apostrophe_line_def)
  moreover have "city apostrophe_row = ''OBrien''" by (simp add: apostrophe_row_def)
  moreover note quotes_removed [of apostrophe_line iprange_to_cidrs_ipv4 "[apostrophe_row]"]
    apostrophe_line_rows h
  ultimately show ?thesis by simp
qed


subsection \<open>C4: when a batch is flushed\<close>




subsection \<open>C5: the retry of a failed flush\<close>

text \<open>
  C5 as stated fails: \<open>queryNoResults\<close> catches \<open>ProgrammingError\<close>, logs it and returns
  \<open>None\<close>, and \<open>main\<close> ignores what it returns. On the one-line input \<open>dbip_line\<close>
  with a server that answers the statement with a \<open>ProgrammingError\<close>, the flush of
  the last batch fails, the statement is executed once and not again, and the run
  ends normally.
\<close>

theorem programming_error_not_retried_counterexample:
  "\<not> raised (main iprange_to_cidrs_ipv4 [dbip_line] (fresh_db [ProgrammingError])) \<and>
   length (executed (db (outcome_state
     (main iprange_to_cidrs_ipv4 [dbip_line] (fresh_db [ProgrammingError]))))) = 1 \<and>
   LOG (outcome_state (main iprange_to_cidrs_ipv4 [dbip_line] (fresh_db [ProgrammingError]))) =
     [Inserting_last_batch 2 2 2, Query_failed]"
proof -
  have nonempty: "dbip_line \<noteq> []" by (simp add: dbip_line_def)
  have vt: "values_text r \<noteq> []" for r by (simp add: values_text_def)
  have m: "main iprange_to_cidrs_ipv4 [dbip_line] (fresh_db [ProgrammingError]) = Inr st \<Longrightarrow>
      length (executed (db st)) = 1 \<and> LOG st = [Inserting_last_batch 2 2 2, Query_failed]" for st
    by (auto simp add: main_def connectDb_def fresh_db_def initial_def nonempty loop_body_def
        dbip_line_rows bulk_insert_def last_batch_def vt insert_batch_def queryNoResults_def
        next_outcome_def Let_def close_def)
  have "\<exists>st. main iprange_to_cidrs_ipv4 [dbip_line] (fresh_db [ProgrammingError]) = Inr st"
    by (simp add: main_def connectDb_def fresh_db_def initial_def nonempty loop_body_def
        dbip_line_rows bulk_insert_def last_batch_def vt insert_batch_def queryNoResults_def
        next_outcome_def Let_def close_def)
  then obtain st where "main iprange_to_cidrs_ipv4 [dbip_line] (fresh_db [ProgrammingError]) = Inr st" ..
  with m [OF this] show ?thesis by (simp add: raised_def outcome_state_def)
qed

text \<open>
  C5, amended: when the execution of a flush raises an exception that reaches \<open>main\<close>
  (anything but \<open>ProgrammingError\<close>), the identical statement is executed exactly once
  more. When that retry raises such an exception too, the exception leaves the loop:
  the batch, its count and its text are as they were before the flush, no later
  line is processed whatever follows, and \<open>main\<close> raises the same exception.
\<close>

theorem retry_once:
  "(cursor (db st) \<and> server (db st) = OtherError # later \<longrightarrow>
      executed (db (outcome_state (insert_batch st))) =
        executed (db st) @ [statement st, statement st]) \<and>
   (cursor (db st) \<and> server (db st) = OtherError # OtherError # later \<longrightarrow>
      (\<exists>st'. insert_batch st = Inl (DatabaseError, st') \<and> sql_values st' = sql_values st \<and>
             batch st' = batch st \<and> count st' = count st)) \<and>
   (line \<noteq> [] \<and> record_rows expand line = Inr rows \<and> 5000 \<le> count st + length rows \<and>
    cursor (db st) \<and> server (db st) = OtherError # OtherError # later \<longrightarrow>
      (\<exists>st'. (\<forall>rest. main_loop expand (line # rest) st = Inl (DatabaseError, st')) \<and>
             executed (db st') = executed (db st) @
               [statement (append_rows rows st), statement (append_rows rows st)] \<and>
             sql_values st' = sql_values (append_rows rows st) \<and>
             batch st' = batch st @ rows \<and> count st' = count st + length rows)) \<and>
   (connectDb d = Inr d' \<and> main_loop expand lines (initial d') = Inl (e, st'') \<longrightarrow>
      main expand lines d = Inl (e, st''))"
proof (intro conjI impI)
  assume "cursor (db st) \<and> server (db st) = OtherError # later"
  then show "executed (db (outcome_state (insert_batch st))) =
        executed (db st) @ [statement st, statement st]"
    by (simp add: insert_batch_retried)
next
  assume a: "cursor (db st) \<and> server (db st) = OtherError # OtherError # later"
  then have "insert_batch st =
    Inl (DatabaseError,
         st\<lparr>db := (db st)\<lparr>server := later,
                            executed := executed (db st) @ [statement st, statement st]\<rparr>,
            LOG := LOG st @ [Trying_again]\<rparr>)"
    by (intro insert_batch_twice_other) simp_all
  then show "\<exists>st'. insert_batch st = Inl (DatabaseError, st') \<and> sql_values st' = sql_values st \<and>
             batch st' = batch st \<and> count st' = count st"
    by simp
next
  assume a: "line \<noteq> [] \<and> record_rows expand line = Inr rows \<and> 5000 \<le> count st + length rows \<and>
    cursor (db st) \<and> server (db st) = OtherError # OtherError # later"
  define s1 where "s1 = (append_rows rows st)\<lparr>line_count := line_count st + 1\<rparr>"
  define s2 where "s2 = s1\<lparr>total_count := total_count s1 + count s1,
      LOG := LOG s1 @ [Inserting (count s1) (total_count s1 + count s1) (line_count s1)]\<rparr>"
  define s3 where "s3 = s2\<lparr>db := (db s2)\<lparr>server := later,
                            executed := executed (db s2) @ [statement s2, statement s2]\<rparr>,
            LOG := LOG s2 @ [Trying_again]\<rparr>"
  have c: "5000 \<le> count s1" using a by (simp add: s1_def)
  have "cursor (db s2)" "server (db s2) = OtherError # OtherError # later"
    using a by (simp_all add: s2_def s1_def)
  then have ib: "insert_batch s2 = Inl (DatabaseError, s3)"
    unfolding s3_def by (rule insert_batch_twice_other)
  have "bulk_insert s1 = Inl (DatabaseError, s3)"
    using c ib by (simp add: bulk_insert_def Let_def s2_def)
  then have lb: "loop_body expand line st = Inl (DatabaseError, s3)"
    using a by (simp add: loop_body_def Let_def s1_def)
  have st: "statement s2 = statement (append_rows rows st)"
    by (simp add: statement_def s2_def s1_def)
  have "\<forall>rest. main_loop expand (line # rest) st = Inl (DatabaseError, s3)"
    using a lb by simp
  moreover have "executed (db s3) = executed (db st) @
               [statement (append_rows rows st), statement (append_rows rows st)]"
    unfolding s3_def st by (simp add: s2_def s1_def)
  moreover have "sql_values s3 = sql_values (append_rows rows st)"
    "batch s3 = batch st @ rows" "count s3 = count st + length rows"
    by (simp_all add: s3_def s2_def s1_def)
  ultimately show "\<exists>st'. (\<forall>rest. main_loop expand (line # rest) st = Inl (DatabaseError, st')) \<and>
             executed (db st') = executed (db st) @
               [statement (append_rows rows st), statement (append_rows rows st)] \<and>
             sql_values st' = sql_values (append_rows rows st) \<and>
             batch st' = batch st @ rows \<and> count st' = count st + length rows"
    by blast
next
  assume "connectDb d = Inr d' \<and> main_loop expand lines (initial d') = Inl (e, st'')"
  then show "main expand lines d = Inl (e, st'')" by (simp add: main_def)
qed


theorem retry_once_witness:
  "cursor (db (nearly_full [OtherError])) \<and> server (db (nearly_full [OtherError])) = [OtherError] \<and>
   executed (db (outcome_state (insert_batch (nearly_full [OtherError])))) =
     [statement (nearly_full [OtherError]), statement (nearly_full [OtherError])] \<and>
   cursor (db (nearly_full [OtherError, OtherError])) \<and>
   server (db (nearly_full [OtherError, OtherError])) = [OtherError, OtherError] \<and>
   raised (insert_batch (nearly_full [OtherError, OtherError])) \<and>
   dbip_line \<noteq> [] \<and>
   record_rows iprange_to_cidrs_ipv4 dbip_line =
     Inr [dbip_row ''1.1.1.18/31'', dbip_row ''1.1.1.20/32''] \<and>
   5000 \<le> count (nearly_full [OtherError, OtherError]) + 2 \<and>
   connectDb (fresh_db [OtherError, OtherError]) = Inr (connected_db [OtherError, OtherError]) \<and>
   (\<exists>st'. main iprange_to_cidrs_ipv4 (replicate 4999 apostrophe_line @ dbip_line # [spec_line])
            (fresh_db [OtherError, OtherError]) = Inl (DatabaseError, st') \<and>
          length (executed (db st')) = 2 \<and> count st' = 5001 \<and> length (batch st') = 5001)"
proof -
  let ?ex = iprange_to_cidrs_ipv4
  let ?rows = "[dbip_row ''1.1.1.18/31'', dbip_row ''1.1.1.20/32'']"
  let ?st = "nearly_full [OtherError, OtherError]"
  let ?lines = "replicate 4999 apostrophe_line @ dbip_line # [spec_line]"
  have ne: "dbip_line \<noteq> []" by (simp add: dbip_line_def)
  have c: "connectDb (fresh_db [OtherError, OtherError]) = Inr (connected_db [OtherError, OtherError])"
    by (rule connect_fresh_db)
  from retry_once [where st = "nearly_full [OtherError]" and later = "[]", THEN conjunct1]
  have 1: "executed (db (outcome_state (insert_batch (nearly_full [OtherError])))) =
     [statement (nearly_full [OtherError]), statement (nearly_full [OtherError])]"
    by (simp add: nearly_full_vars)
  from retry_once [where st = ?st and later = "[]", THEN conjunct2, THEN conjunct1]
  have 2: "raised (insert_batch ?st)"
    by (auto simp add: nearly_full_vars raised_def)
  from retry_once [where st = ?st and later = "[]" and line = dbip_line and expand = ?ex
      and rows = ?rows, THEN conjunct2, THEN conjunct2, THEN conjunct1] ne dbip_line_rows
  obtain st' where st': "\<forall>rest. main_loop ?ex (dbip_line # rest) ?st = Inl (DatabaseError, st')"
    "executed (db st') = [statement (append_rows ?rows ?st), statement (append_rows ?rows ?st)]"
    "batch st' = batch ?st @ ?rows" "count st' = count ?st + 2"
    by (auto simp add: nearly_full_vars)
  from st'(1) have "main_loop ?ex ?lines (initial (connected_db [OtherError, OtherError])) =
      Inl (DatabaseError, st')"
    by (simp add: main_loop_nearly_full)
  with retry_once [where expand = ?ex and d = "fresh_db [OtherError, OtherError]"
      and d' = "connected_db [OtherError, OtherError]" and lines = ?lines and e = DatabaseError
      and st'' = st', THEN conjunct2, THEN conjunct2, THEN conjunct2] c
  have "main ?ex ?lines (fresh_db [OtherError, OtherError]) = Inl (DatabaseError, st')"
    by simp
  with st'(2-4) have 3: "\<exists>st'. main ?ex ?lines (fresh_db [OtherError, OtherError]) =
      Inl (DatabaseError, st') \<and>
      length (executed (db st')) = 2 \<and> count st' = 5001 \<and> length (batch st') = 5001"
    by (simp add: nearly_full_vars)
  show ?thesis using 1 2 3 ne c dbip_line_rows by (simp add: nearly_full_vars)
qed


subsection \<open>C3: what a conflict overwrites\<close>



subsection \<open>C6: a second run leaves the table as the first run left it\<close>





end
